theory Spec2Isabelle
  imports Complex_Main "HOL-Library.Multiset"
begin

section \<open>Data model\<close>

text \<open>
  The persistent store (Prisma) and the Node runtime are modelled as one explicit state:
  the tables are finite maps and lists, the timers created by \<^verbatim>\<open>setInterval\<close> and
  \<^verbatim>\<open>setTimeout\<close> are lists of live handles and pending callbacks. Every route
  handler and every timer callback is one atomic step on this state. Record ids and
  timer handles are natural numbers drawn from a counter (the store and the runtime
  never hand out the same one twice).
\<close>

datatype server_status = Pending | Running | Stopped | Failed | Terminated

datatype deployment_status = DPending | Building | Deployed | DFailed

text \<open>\<^verbatim>\<open>interface InstanceSpecs\<close> of ServerService.ts.\<close>

record InstanceSpecs =
  cpu :: int
  memory :: int
  storage :: int
  bandwidth :: int
  monthlyPrice :: real

text \<open>
  A row of the server table: the five specification columns followed by the other
  columns the handlers read or write.
\<close>

record server = InstanceSpecs +
  name :: string
  ipAddress :: string
  region :: string
  provider :: string
  instanceType :: string
  organizationId :: string
  status :: server_status
  isActive :: bool
  createdAt :: int

record metric =
  metricId :: nat
  serverId :: nat
  cpuUsage :: real
  memoryUsage :: real
  diskUsage :: real
  networkIn :: real
  networkOut :: real
  timestamp :: int

record deployment =
  dname :: string
  dserverId :: nat
  dorganizationId :: string
  dstatus :: deployment_status
  buildLogs :: string
  dupdatedAt :: int

text \<open>The callbacks handed to \<^verbatim>\<open>setTimeout\<close>, each closed over a record id.\<close>

datatype task = ProvisionDone nat | BuildStart nat | BuildFinish nat

record state =
  servers :: "nat \<rightharpoonup> server"
  metrics :: "metric list"
  deployments :: "nat \<rightharpoonup> deployment"
  metricsIntervals :: "nat \<rightharpoonup> nat"
  intervals :: "(nat \<times> nat) list"
  timeouts :: "task list"
  nextId :: nat

definition initial_state :: state where
  "initial_state = \<lparr>servers = Map.empty, metrics = [], deployments = Map.empty,
     metricsIntervals = Map.empty, intervals = [], timeouts = [], nextId = 0\<rparr>"

datatype error = HttpError nat string | PlainError string

section \<open>Metrics collector registry\<close>

text \<open>
  \<^verbatim>\<open>clearInterval(h)\<close> removes the live timer with handle \<open>h\<close>;
  \<^verbatim>\<open>setInterval\<close> creates a live timer with a fresh handle. A live timer is
  the pair of its handle and the server id its callback is closed over.
\<close>

definition clearInterval :: "nat \<Rightarrow> state \<Rightarrow> state" where
  "clearInterval h st = st\<lparr>intervals := filter (\<lambda>t. fst t \<noteq> h) (intervals st)\<rparr>"

definition setInterval :: "nat \<Rightarrow> state \<Rightarrow> nat \<times> state" where
  "setInterval sid st =
     (nextId st, st\<lparr>intervals := intervals st @ [(nextId st, sid)], nextId := Suc (nextId st)\<rparr>)"

definition stopMetricsCollection :: "nat \<Rightarrow> state \<Rightarrow> state" where
  "stopMetricsCollection sid st =
     (case metricsIntervals st sid of
        None \<Rightarrow> st
      | Some h \<Rightarrow> (let st1 = clearInterval h st
                  in st1\<lparr>metricsIntervals := (metricsIntervals st1)(sid := None)\<rparr>))"

definition startMetricsCollection :: "nat \<Rightarrow> state \<Rightarrow> state" where
  "startMetricsCollection sid st =
     (let st1 = stopMetricsCollection sid st;
          (h, st2) = setInterval sid st1
      in st2\<lparr>metricsIntervals := (metricsIntervals st2)(sid \<mapsto> h)\<rparr>)"

text \<open>The live collection timers of one server.\<close>

definition activeTimers :: "nat \<Rightarrow> state \<Rightarrow> (nat \<times> nat) list" where
  "activeTimers sid st = filter (\<lambda>t. snd t = sid) (intervals st)"

section \<open>Instance catalog\<close>

type_synonym catalog = "string \<rightharpoonup> (string \<rightharpoonup> InstanceSpecs)"

definition spec :: "int \<Rightarrow> int \<Rightarrow> int \<Rightarrow> int \<Rightarrow> real \<Rightarrow> InstanceSpecs" where
  "spec c m s b p = \<lparr>cpu = c, memory = m, storage = s, bandwidth = b, monthlyPrice = p\<rparr>"

text \<open>The static table \<^verbatim>\<open>ServerService.instanceSpecs\<close>.\<close>

definition instanceSpecs :: catalog where
  "instanceSpecs =
    [''aws'' \<mapsto>
       [''t3.micro'' \<mapsto> spec 2 1 20 100 (17 / 2),
        ''t3.small'' \<mapsto> spec 2 2 20 100 17,
        ''t3.medium'' \<mapsto> spec 2 4 30 200 34,
        ''t3.large'' \<mapsto> spec 2 8 50 300 68,
        ''m5.large'' \<mapsto> spec 2 8 50 500 88,
        ''m5.xlarge'' \<mapsto> spec 4 16 100 750 176],
     ''digitalocean'' \<mapsto>
       [''s-1vcpu-1gb'' \<mapsto> spec 1 1 25 1000 6,
        ''s-1vcpu-2gb'' \<mapsto> spec 1 2 50 2000 12,
        ''s-2vcpu-2gb'' \<mapsto> spec 2 2 60 3000 18,
        ''s-2vcpu-4gb'' \<mapsto> spec 2 4 80 4000 24,
        ''s-4vcpu-8gb'' \<mapsto> spec 4 8 160 5000 48],
     ''gcp'' \<mapsto>
       [''e2-micro'' \<mapsto> spec 2 1 20 100 7,
        ''e2-small'' \<mapsto> spec 2 2 20 200 14,
        ''e2-medium'' \<mapsto> spec 2 4 30 300 28,
        ''e2-standard-2'' \<mapsto> spec 2 8 50 500 56,
        ''e2-standard-4'' \<mapsto> spec 4 16 100 750 112],
     ''azure'' \<mapsto>
       [''B1s'' \<mapsto> spec 1 1 30 100 8,
        ''B1ms'' \<mapsto> spec 1 2 30 200 16,
        ''B2s'' \<mapsto> spec 2 4 60 400 32,
        ''B2ms'' \<mapsto> spec 2 8 60 600 64,
        ''B4ms'' \<mapsto> spec 4 16 120 1000 128]]"

text \<open>
  \<^verbatim>\<open>getInstanceSpecs\<close>: the optional-chained double lookup, throwing when the
  pair is absent. The table is an argument so that a changed catalog can be expressed.
\<close>

definition getInstanceSpecs :: "catalog \<Rightarrow> string \<Rightarrow> string \<Rightarrow> error + InstanceSpecs" where
  "getInstanceSpecs cat prov ity =
     (case cat prov of
        None \<Rightarrow> Inl (PlainError (''Unknown instance type: '' @ prov @ ''/'' @ ity))
      | Some tbl \<Rightarrow>
          (case tbl ity of
             None \<Rightarrow> Inl (PlainError (''Unknown instance type: '' @ prov @ ''/'' @ ity))
           | Some specs \<Rightarrow> Inr specs))"

section \<open>Server lifecycle\<close>

text \<open>\<^verbatim>\<open>prisma.server.update\<close>: it throws when the row is absent.\<close>

definition updateServer :: "nat \<Rightarrow> (server \<Rightarrow> server) \<Rightarrow> state \<Rightarrow> state option" where
  "updateServer sid f st =
     (case servers st sid of
        None \<Rightarrow> None
      | Some s \<Rightarrow> Some (st\<lparr>servers := (servers st)(sid \<mapsto> f s)\<rparr>))"

definition setTimeout :: "task \<Rightarrow> state \<Rightarrow> state" where
  "setTimeout t st = st\<lparr>timeouts := timeouts st @ [t]\<rparr>"

definition recordNotFound :: error where
  "recordNotFound = PlainError ''Record to update not found''"

text \<open>
  \<^verbatim>\<open>provisionServer\<close>: look the server up, write status pending, schedule the
  completion callback after the simulated delay.
\<close>

definition provisionServer :: "nat \<Rightarrow> state \<Rightarrow> (error + unit) \<times> state" where
  "provisionServer sid st =
     (case servers st sid of
        None \<Rightarrow> (Inl (PlainError ''Server not found''), st)
      | Some s \<Rightarrow>
          (case updateServer sid (\<lambda>s. s\<lparr>status := Pending\<rparr>) st of
             None \<Rightarrow> (Inl recordNotFound, st)
           | Some st1 \<Rightarrow> (Inr (), setTimeout (ProvisionDone sid) st1)))"

text \<open>
  The callback scheduled by \<^verbatim>\<open>provisionServer\<close>. \<open>ip\<close> is the generated
  address, \<open>storeError\<close> says that the first update raised for a reason other than a
  missing row. In the \<^verbatim>\<open>catch\<close> branch the second update raises again when the
  row is missing; nothing handles that, so the error leaves the callback with nothing
  written.
\<close>

definition provisionCallback ::
  "nat \<Rightarrow> string \<Rightarrow> bool \<Rightarrow> state \<Rightarrow> (error + unit) \<times> state" where
  "provisionCallback sid ip storeError st =
     (case (if storeError then None
            else updateServer sid (\<lambda>s. s\<lparr>status := Running, ipAddress := ip\<rparr>) st) of
        Some st1 \<Rightarrow> (Inr (), startMetricsCollection sid st1)
      | None \<Rightarrow>
          (case updateServer sid (\<lambda>s. s\<lparr>status := Failed\<rparr>) st of
             None \<Rightarrow> (Inl recordNotFound, st)
           | Some st1 \<Rightarrow> (Inr (), st1)))"

definition startServer :: "nat \<Rightarrow> state \<Rightarrow> (error + unit) \<times> state" where
  "startServer sid st =
     (case updateServer sid (\<lambda>s. s\<lparr>status := Running\<rparr>) st of
        None \<Rightarrow> (Inl recordNotFound, st)
      | Some st1 \<Rightarrow> (Inr (), startMetricsCollection sid st1))"

definition stopServer :: "nat \<Rightarrow> state \<Rightarrow> (error + unit) \<times> state" where
  "stopServer sid st =
     (case updateServer sid (\<lambda>s. s\<lparr>status := Stopped\<rparr>) st of
        None \<Rightarrow> (Inl recordNotFound, st)
      | Some st1 \<Rightarrow> (Inr (), stopMetricsCollection sid st1))"

text \<open>
  \<^verbatim>\<open>prisma.server.findFirst({where: {id, organizationId, isActive: true}})\<close>,
  the lookup shared by the start, stop and deployment handlers.
\<close>

definition findServer :: "string \<Rightarrow> nat \<Rightarrow> state \<Rightarrow> server option" where
  "findServer org sid st =
     (case servers st sid of
        None \<Rightarrow> None
      | Some s \<Rightarrow> if organizationId s = org \<and> isActive s then Some s else None)"

text \<open>\<^verbatim>\<open>POST /:id/start\<close>.\<close>

definition POST_start :: "string \<Rightarrow> nat \<Rightarrow> state \<Rightarrow> (error + unit) \<times> state" where
  "POST_start org sid st =
     (case findServer org sid st of
        None \<Rightarrow> (Inl (HttpError 404 ''Server not found''), st)
      | Some s \<Rightarrow>
          if status s = Running then (Inl (HttpError 400 ''Server is already running''), st)
          else startServer sid st)"

text \<open>\<^verbatim>\<open>POST /:id/stop\<close>.\<close>

definition POST_stop :: "string \<Rightarrow> nat \<Rightarrow> state \<Rightarrow> (error + unit) \<times> state" where
  "POST_stop org sid st =
     (case findServer org sid st of
        None \<Rightarrow> (Inl (HttpError 404 ''Server not found''), st)
      | Some s \<Rightarrow>
          if status s = Stopped then (Inl (HttpError 400 ''Server is already stopped''), st)
          else stopServer sid st)"

subsection \<open>Creation\<close>

record create_body =
  b_name :: string
  b_provider :: string
  b_region :: string
  b_instanceType :: string
  b_cpu :: "int option"
  b_memory :: "int option"
  b_storage :: "int option"

definition isSpace :: "char \<Rightarrow> bool" where
  "isSpace c = (c \<in> set [CHR '' '', CHR 0x09, CHR 0x0A, CHR 0x0B, CHR 0x0C, CHR 0x0D])"

definition trim :: "string \<Rightarrow> string" where
  "trim s = rev (dropWhile isSpace (rev (dropWhile isSpace s)))"

definition optionalIntMin :: "int \<Rightarrow> int option \<Rightarrow> bool" where
  "optionalIntMin lo v = (case v of None \<Rightarrow> True | Some n \<Rightarrow> lo \<le> n)"

text \<open>The validator chain of \<^verbatim>\<open>POST /\<close> (whitespace taken as ASCII whitespace).\<close>

definition validCreate :: "create_body \<Rightarrow> bool" where
  "validCreate b =
     (1 \<le> length (trim (b_name b)) \<and> length (trim (b_name b)) \<le> 100
      \<and> b_provider b \<in> set [''aws'', ''gcp'', ''azure'', ''digitalocean'']
      \<and> 1 \<le> length (trim (b_region b))
      \<and> 1 \<le> length (trim (b_instanceType b))
      \<and> optionalIntMin 1 (b_cpu b) \<and> optionalIntMin 1 (b_memory b)
      \<and> optionalIntMin 10 (b_storage b))"

text \<open>JavaScript \<^verbatim>\<open>a || b\<close> on an optional number: undefined and 0 are falsy.\<close>

definition orElse :: "int option \<Rightarrow> int \<Rightarrow> int" where
  "orElse a b = (case a of None \<Rightarrow> b | Some v \<Rightarrow> if v = 0 then b else v)"

definition nameTaken :: "string \<Rightarrow> string \<Rightarrow> state \<Rightarrow> bool" where
  "nameTaken org n st =
     list_ex (\<lambda>i. case servers st i of
                    None \<Rightarrow> False
                  | Some s \<Rightarrow> name s = n \<and> organizationId s = org \<and> isActive s)
       [0..<nextId st]"

text \<open>
  \<^verbatim>\<open>POST /\<close> of routes/servers.ts. \<open>now\<close> is the clock reading the store
  writes into the created-at column. The hostname column is display data derived from
  the name and is left out.
\<close>

definition POST_servers ::
  "catalog \<Rightarrow> string \<Rightarrow> int \<Rightarrow> create_body \<Rightarrow> state \<Rightarrow> (error + nat) \<times> state" where
  "POST_servers cat org now b st =
     (if \<not> validCreate b then (Inl (HttpError 400 ''Validation failed''), st)
      else if nameTaken org (trim (b_name b)) st
      then (Inl (HttpError 409 ''Server name already exists''), st)
      else
        (case getInstanceSpecs cat (b_provider b) (trim (b_instanceType b)) of
           Inl e \<Rightarrow> (Inl e, st)
         | Inr specs \<Rightarrow>
             (let sid = nextId st;
                  row = \<lparr>cpu = orElse (b_cpu b) (cpu specs),
                         memory = orElse (b_memory b) (memory specs),
                         storage = orElse (b_storage b) (storage specs),
                         bandwidth = bandwidth specs,
                         monthlyPrice = monthlyPrice specs,
                         name = trim (b_name b),
                         ipAddress = ''0.0.0.0'',
                         region = trim (b_region b),
                         provider = b_provider b,
                         instanceType = trim (b_instanceType b),
                         organizationId = org,
                         status = Pending,
                         isActive = True,
                         createdAt = now\<rparr>;
                  st1 = st\<lparr>servers := (servers st)(sid \<mapsto> row), nextId := Suc sid\<rparr>
              in case provisionServer sid st1 of
                   (Inl e, st2) \<Rightarrow> (Inl e, st2)
                 | (Inr u, st2) \<Rightarrow> (Inr sid, st2))))"

section \<open>Metrics collection tick\<close>

text \<open>The five values drawn from the random source on one tick.\<close>

record reading =
  r_cpu :: real
  r_memory :: real
  r_disk :: real
  r_in :: real
  r_out :: real

text \<open>
  \<^verbatim>\<open>prisma.serverMetric.create\<close>: the row gets a fresh id and the clock reading
  as its timestamp.
\<close>

definition createMetric :: "nat \<Rightarrow> reading \<Rightarrow> int \<Rightarrow> state \<Rightarrow> state" where
  "createMetric sid r now st =
     st\<lparr>metrics := metrics st @
            [\<lparr>metricId = nextId st, serverId = sid, cpuUsage = r_cpu r,
              memoryUsage = r_memory r, diskUsage = r_disk r, networkIn = r_in r,
              networkOut = r_out r, timestamp = now\<rparr>],
        nextId := Suc (nextId st)\<rparr>"

text \<open>
  \<^verbatim>\<open>findMany({where: {serverId}, orderBy: {timestamp: 'desc'}, skip: k})\<close>: the rows
  of one server, newest first, without the first \<open>k\<close>.
\<close>

definition newestFirst :: "metric list \<Rightarrow> metric list" where
  "newestFirst ms = sort_key (\<lambda>m. - timestamp m) ms"

definition findManySkip :: "nat \<Rightarrow> nat \<Rightarrow> state \<Rightarrow> metric list" where
  "findManySkip sid k st = drop k (newestFirst (filter (\<lambda>m. serverId m = sid) (metrics st)))"

text \<open>\<^verbatim>\<open>deleteMany({where: {id: {in: ids}}})\<close>.\<close>

definition deleteMany :: "nat list \<Rightarrow> state \<Rightarrow> state" where
  "deleteMany ids st = st\<lparr>metrics := filter (\<lambda>m. metricId m \<notin> set ids) (metrics st)\<rparr>"

text \<open>
  The body of the interval callback of \<^verbatim>\<open>startMetricsCollection\<close> when the
  store accepts the writes: insert, then delete everything behind the newest 1000 rows
  of that server. (When the store raises, the \<^verbatim>\<open>catch\<close> logs and the tick
  leaves the store as it was.)
\<close>

definition collectMetrics :: "nat \<Rightarrow> reading \<Rightarrow> int \<Rightarrow> state \<Rightarrow> state" where
  "collectMetrics sid r now st =
     (let st1 = createMetric sid r now st;
          oldMetrics = findManySkip sid 1000 st1
      in if length oldMetrics > 0 then deleteMany (map metricId oldMetrics) st1 else st1)"

text \<open>A tick of the timer with handle \<open>h\<close>: it runs only while the timer is live.\<close>

definition intervalTick :: "nat \<Rightarrow> reading \<Rightarrow> int \<Rightarrow> state \<Rightarrow> state" where
  "intervalTick h r now st =
     (case find (\<lambda>t. fst t = h) (intervals st) of
        None \<Rightarrow> st
      | Some t \<Rightarrow> collectMetrics (snd t) r now st)"

text \<open>A run of ticks, each for some server, at some clock reading.\<close>

fun collectAll :: "(nat \<times> reading \<times> int) list \<Rightarrow> state \<Rightarrow> state" where
  "collectAll [] st = st"
| "collectAll ((sid, r, now) # ticks) st = collectAll ticks (collectMetrics sid r now st)"

definition samplesOf :: "nat \<Rightarrow> state \<Rightarrow> metric list" where
  "samplesOf sid st = filter (\<lambda>m. serverId m = sid) (metrics st)"

text \<open>The clock readings of the ticks of one server, in tick order.\<close>

definition tickTimes :: "nat \<Rightarrow> (nat \<times> reading \<times> int) list \<Rightarrow> int list" where
  "tickTimes sid ticks = map (\<lambda>t. snd (snd t)) (filter (\<lambda>t. fst t = sid) ticks)"

section \<open>Deployment pipeline\<close>

definition newline :: string where
  "newline = [CHR 0x0A]"

definition updateDeployment :: "nat \<Rightarrow> (deployment \<Rightarrow> deployment) \<Rightarrow> state \<Rightarrow> state option" where
  "updateDeployment did f st =
     (case deployments st did of
        None \<Rightarrow> None
      | Some d \<Rightarrow> Some (st\<lparr>deployments := (deployments st)(did \<mapsto> f d)\<rparr>))"

definition deploymentNameTaken :: "string \<Rightarrow> string \<Rightarrow> state \<Rightarrow> bool" where
  "deploymentNameTaken org n st =
     list_ex (\<lambda>i. case deployments st i of
                    None \<Rightarrow> False
                  | Some d \<Rightarrow> dname d = n \<and> dorganizationId d = org)
       [0..<nextId st]"

text \<open>
  \<^verbatim>\<open>POST /\<close> of routes/deployments.ts. \<open>valid\<close> is the outcome of the validator
  chain (which includes a regular-expression match on the repository URL); \<open>n\<close> is
  the sanitised name. Columns that no later step reads are left out.
\<close>

definition POST_deployments ::
  "string \<Rightarrow> int \<Rightarrow> bool \<Rightarrow> string \<Rightarrow> nat \<Rightarrow> state \<Rightarrow> (error + nat) \<times> state" where
  "POST_deployments org now valid n sid st =
     (if \<not> valid then (Inl (HttpError 400 ''Validation failed''), st)
      else
        (case findServer org sid st of
           None \<Rightarrow> (Inl (HttpError 404 ''Server not found''), st)
         | Some s \<Rightarrow>
             if status s \<noteq> Running
             then (Inl (HttpError 400 ''Server must be running to deploy''), st)
             else if deploymentNameTaken org n st
             then (Inl (HttpError 409 ''Deployment name already exists''), st)
             else
               (let did = nextId st;
                    row = \<lparr>dname = n, dserverId = sid, dorganizationId = org,
                           dstatus = DPending, buildLogs = [], dupdatedAt = now\<rparr>;
                    st1 = st\<lparr>deployments := (deployments st)(did \<mapsto> row), nextId := Suc did\<rparr>
                in (Inr did, setTimeout (BuildStart did) st1))))"

text \<open>
  The outer callback (after 5 seconds): write status building, then schedule the inner
  callback. When the update raises (the row is gone) the \<^verbatim>\<open>catch\<close> logs and
  the inner callback is never scheduled.
\<close>

definition buildStartCallback :: "nat \<Rightarrow> state \<Rightarrow> state" where
  "buildStartCallback did st =
     (case updateDeployment did
             (\<lambda>d. d\<lparr>dstatus := Building,
                    buildLogs := ''Starting build process...'' @ newline
                       @ ''Cloning repository...'' @ newline
                       @ ''Installing dependencies...''\<rparr>) st of
        None \<Rightarrow> st
      | Some st1 \<Rightarrow> setTimeout (BuildFinish did) st1)"

text \<open>
  The inner callback (after 30 more seconds): \<open>rnd\<close> is the value of
  \<^verbatim>\<open>Math.random()\<close>.
\<close>

definition buildFinishCallback :: "nat \<Rightarrow> real \<Rightarrow> state \<Rightarrow> state" where
  "buildFinishCallback did rnd st =
     (let success = (rnd > 0.2) in
      case updateDeployment did
             (\<lambda>d. d\<lparr>dstatus := (if success then Deployed else DFailed),
                    buildLogs := (if success
                       then ''Build completed successfully!'' @ newline @ ''Deployment is live.''
                       else ''Build failed: npm install failed'' @ newline
                              @ ''Error: Module not found'')\<rparr>) st of
        None \<Rightarrow> st
      | Some st1 \<Rightarrow> st1)"

text \<open>
  \<^verbatim>\<open>POST /:id/redeploy\<close>. The lookup includes the deployment's server row; reading
  the status of a missing row is a TypeError.
\<close>

definition POST_redeploy :: "string \<Rightarrow> int \<Rightarrow> nat \<Rightarrow> state \<Rightarrow> (error + unit) \<times> state" where
  "POST_redeploy org now did st =
     (case (case deployments st did of
              None \<Rightarrow> None
            | Some d \<Rightarrow> if dorganizationId d = org then Some d else None) of
        None \<Rightarrow> (Inl (HttpError 404 ''Deployment not found''), st)
      | Some d \<Rightarrow>
          (case servers st (dserverId d) of
             None \<Rightarrow> (Inl (PlainError ''TypeError''), st)
           | Some s \<Rightarrow>
               if status s \<noteq> Running
               then (Inl (HttpError 400 ''Server must be running to redeploy''), st)
               else
                 (case updateDeployment did
                         (\<lambda>d. d\<lparr>dstatus := Building,
                                buildLogs := ''Redeployment started...'' @ newline
                                   @ ''Pulling latest changes...'',
                                dupdatedAt := now\<rparr>) st of
                    None \<Rightarrow> (Inl recordNotFound, st)
                  | Some st1 \<Rightarrow> (Inr (), st1))))"

section \<open>Timers firing\<close>

text \<open>
  What the callbacks read from outside when they run: the generated address, whether
  the store raises on the first write, and the random number.
\<close>

record env =
  e_ip :: string
  e_storeError :: bool
  e_random :: real

text \<open>
  An error that leaves a timer callback unhandled is an unhandled rejection, and no
  listener for it is installed: the Node process ends. What lived in the process (the
  live timers, the registry, the pending callbacks) is gone; the store keeps its tables.
  A process started afterwards begins with an empty registry.
\<close>

definition processExit :: "state \<Rightarrow> state" where
  "processExit st = st\<lparr>metricsIntervals := Map.empty, intervals := [], timeouts := []\<rparr>"

definition runTask :: "task \<Rightarrow> env \<Rightarrow> state \<Rightarrow> state" where
  "runTask t e st =
     (case t of
        ProvisionDone sid \<Rightarrow>
          (case provisionCallback sid (e_ip e) (e_storeError e) st of
             (Inl err, st1) \<Rightarrow> processExit st1
           | (Inr u, st1) \<Rightarrow> st1)
      | BuildStart did \<Rightarrow> buildStartCallback did st
      | BuildFinish did \<Rightarrow> buildFinishCallback did (e_random e) st)"

text \<open>A pending callback fires once: it leaves the queue and runs. One that is not
  pending does nothing.\<close>

definition fire :: "task \<Rightarrow> env \<Rightarrow> state \<Rightarrow> state" where
  "fire t e st =
     (if t \<in> set (timeouts st)
      then runTask t e (st\<lparr>timeouts := remove1 t (timeouts st)\<rparr>)
      else st)"

text \<open>Any sequence of pending callbacks firing, each with its own outside readings.\<close>

fun fireAll :: "(task \<times> env) list \<Rightarrow> state \<Rightarrow> state" where
  "fireAll [] st = st"
| "fireAll ((t, e) # rest) st = fireAll rest (fire t e st)"

section \<open>The system as a whole\<close>

text \<open>
  Everything that can happen to the state: a request handled by one of the routes, a
  pending one-shot callback firing, a collection timer ticking. The response of a
  handler is dropped here; only its effect on the state is kept.
\<close>

datatype event =
    CreateServer catalog string int create_body
  | StartRequest string nat
  | StopRequest string nat
  | CreateDeployment string int bool string nat
  | RedeployRequest string int nat
  | Fire task env
  | Tick nat reading int

definition step :: "event \<Rightarrow> state \<Rightarrow> state" where
  "step ev st =
     (case ev of
        CreateServer cat org now b \<Rightarrow> snd (POST_servers cat org now b st)
      | StartRequest org sid \<Rightarrow> snd (POST_start org sid st)
      | StopRequest org sid \<Rightarrow> snd (POST_stop org sid st)
      | CreateDeployment org now valid n sid \<Rightarrow> snd (POST_deployments org now valid n sid st)
      | RedeployRequest org now did \<Rightarrow> snd (POST_redeploy org now did st)
      | Fire t e \<Rightarrow> fire t e st
      | Tick h r now \<Rightarrow> intervalTick h r now st)"

fun run :: "event list \<Rightarrow> state \<Rightarrow> state" where
  "run [] st = st"
| "run (ev # evs) st = run evs (step ev st)"

section \<open>Monitoring overview\<close>

datatype alert_type = CpuAlert | MemoryAlert | DiskAlert

record alert =
  alertMetric :: nat
  alertServerId :: nat
  serverName :: string
  alertType :: alert_type
  alertValue :: real
  alertTimestamp :: int
  severity :: string

text \<open>
  The query of \<^verbatim>\<open>GET /overview\<close>: samples of the organisation's servers from the
  last hour, newest first, at most 100.
\<close>

definition recentMetrics :: "string \<Rightarrow> int \<Rightarrow> state \<Rightarrow> metric list" where
  "recentMetrics org now st =
     take 100 (newestFirst (filter
       (\<lambda>m. (case servers st (serverId m) of
                None \<Rightarrow> False
              | Some s \<Rightarrow> organizationId s = org)
            \<and> timestamp m \<ge> now - 60 * 60 * 1000)
       (metrics st)))"

text \<open>The predicate of the \<^verbatim>\<open>filter\<close> call.\<close>

definition highUsage :: "metric \<Rightarrow> bool" where
  "highUsage m = (cpuUsage m > 80 \<or> memoryUsage m > 85 \<or> diskUsage m > 90)"

text \<open>The function of the \<^verbatim>\<open>map\<close> call, with its two nested conditionals.\<close>

definition toAlert :: "state \<Rightarrow> metric \<Rightarrow> alert" where
  "toAlert st m =
     \<lparr>alertMetric = metricId m,
      alertServerId = serverId m,
      serverName = (case servers st (serverId m) of None \<Rightarrow> [] | Some s \<Rightarrow> name s),
      alertType = (if cpuUsage m > 80 then CpuAlert
                   else if memoryUsage m > 85 then MemoryAlert else DiskAlert),
      alertValue = (if cpuUsage m > 80 then cpuUsage m
                    else if memoryUsage m > 85 then memoryUsage m else diskUsage m),
      alertTimestamp = timestamp m,
      severity = ''warning''\<rparr>"

definition overviewAlerts :: "string \<Rightarrow> int \<Rightarrow> state \<Rightarrow> alert list" where
  "overviewAlerts org now st =
     map (toAlert st) (take 10 (filter highUsage (recentMetrics org now st)))"

section \<open>Calendar\<close>

text \<open>
  The date functions the billing handler calls, as ECMA-262 defines them: the abstract
  operations on a time value (milliseconds since the epoch), then local time, then the
  constructor and the getters.
\<close>

definition msPerDay :: int where
  "msPerDay = 86400000"

definition Day :: "int \<Rightarrow> int" where
  "Day t = t div msPerDay"

definition DaysInYear :: "int \<Rightarrow> int" where
  "DaysInYear y =
     (if y mod 4 \<noteq> 0 then 365
      else if y mod 100 \<noteq> 0 then 366
      else if y mod 400 \<noteq> 0 then 365 else 366)"

definition DayFromYear :: "int \<Rightarrow> int" where
  "DayFromYear y =
     365 * (y - 1970) + (y - 1969) div 4 - (y - 1901) div 100 + (y - 1601) div 400"

text \<open>The largest year whose first day is not after day \<open>d\<close>, found by search.\<close>

function yearUp :: "int \<Rightarrow> int \<Rightarrow> int" where
  "yearUp d y = (if DayFromYear (y + 1) \<le> d then yearUp d (y + 1) else y)"
  by pat_completeness auto
termination
  by (relation "measure (\<lambda>(d, y). nat (d - DayFromYear (y + 1) + 1))")
     (auto simp: DayFromYear_def)

function yearDown :: "int \<Rightarrow> int \<Rightarrow> int" where
  "yearDown d y = (if d < DayFromYear y then yearDown d (y - 1) else y)"
  by pat_completeness auto
termination
  by (relation "measure (\<lambda>(d, y). nat (DayFromYear y - d))")
     (auto simp: DayFromYear_def)

definition YearFromTime :: "int \<Rightarrow> int" where
  "YearFromTime t = (if 0 \<le> Day t then yearUp (Day t) 1970 else yearDown (Day t) 1970)"

definition leapDays :: "int \<Rightarrow> int" where
  "leapDays y = (if DaysInYear y = 366 then 1 else 0)"

definition DayWithinYear :: "int \<Rightarrow> int" where
  "DayWithinYear t = Day t - DayFromYear (YearFromTime t)"

text \<open>The day within the year on which month \<open>m\<close> (0 to 11) starts.\<close>

definition monthStart :: "int \<Rightarrow> int \<Rightarrow> int" where
  "monthStart m l =
     (if m = 0 then 0 else if m = 1 then 31 else if m = 2 then 59 + l
      else if m = 3 then 90 + l else if m = 4 then 120 + l else if m = 5 then 151 + l
      else if m = 6 then 181 + l else if m = 7 then 212 + l else if m = 8 then 243 + l
      else if m = 9 then 273 + l else if m = 10 then 304 + l else 334 + l)"

definition MonthFromTime :: "int \<Rightarrow> int" where
  "MonthFromTime t =
     (let d = DayWithinYear t; l = leapDays (YearFromTime t) in
      if d < 31 then 0 else if d < 59 + l then 1 else if d < 90 + l then 2
      else if d < 120 + l then 3 else if d < 151 + l then 4 else if d < 181 + l then 5
      else if d < 212 + l then 6 else if d < 243 + l then 7 else if d < 273 + l then 8
      else if d < 304 + l then 9 else if d < 334 + l then 10 else 11)"

definition DateFromTime :: "int \<Rightarrow> int" where
  "DateFromTime t =
     DayWithinYear t - monthStart (MonthFromTime t) (leapDays (YearFromTime t)) + 1"

text \<open>
  MakeDay and MakeDate: a month outside 0 to 11 carries into the year, a date outside
  the month carries into the neighbouring months.
\<close>

definition MakeDay :: "int \<Rightarrow> int \<Rightarrow> int \<Rightarrow> int" where
  "MakeDay y m d =
     (let ym = y + m div 12; mn = m mod 12
      in DayFromYear ym + monthStart mn (leapDays ym) + d - 1)"

definition MakeDate :: "int \<Rightarrow> int \<Rightarrow> int" where
  "MakeDate day time = day * msPerDay + time"

text \<open>
  The time zone of the host. LocalTZA(t, isUTC) is the offset of local time from UTC
  in milliseconds: in effect at the instant \<open>t\<close> when \<open>isUTC\<close> holds, and the one
  by which the local time \<open>t\<close> is read otherwise (for a local time that a transition
  repeats or skips, the offset before the transition).
\<close>

record zone =
  tzaUTC :: "int \<Rightarrow> int"
  tzaLocal :: "int \<Rightarrow> int"

definition LocalTZA :: "zone \<Rightarrow> int \<Rightarrow> bool \<Rightarrow> int" where
  "LocalTZA z t isUTC = (if isUTC then tzaUTC z t else tzaLocal z t)"

definition LocalTime :: "zone \<Rightarrow> int \<Rightarrow> int" where
  "LocalTime z t = t + LocalTZA z t True"

definition UTC :: "zone \<Rightarrow> int \<Rightarrow> int" where
  "UTC z t = t - LocalTZA z t False"

text \<open>
  \<^verbatim>\<open>new Date(year, month, date)\<close>: the components are local time, and a year from 0
  to 99 stands for 1900 + year. \<^verbatim>\<open>getFullYear\<close>, \<^verbatim>\<open>getMonth\<close> and
  \<^verbatim>\<open>getDate\<close> read the instant in local time.
\<close>

definition newDate :: "zone \<Rightarrow> int \<Rightarrow> int \<Rightarrow> int \<Rightarrow> int" where
  "newDate z y m d =
     (let yr = (if 0 \<le> y \<and> y \<le> 99 then 1900 + y else y)
      in UTC z (MakeDate (MakeDay yr m d) 0))"

definition getFullYear :: "zone \<Rightarrow> int \<Rightarrow> int" where
  "getFullYear z t = YearFromTime (LocalTime z t)"

definition getMonth :: "zone \<Rightarrow> int \<Rightarrow> int" where
  "getMonth z t = MonthFromTime (LocalTime z t)"

definition getDate :: "zone \<Rightarrow> int \<Rightarrow> int" where
  "getDate z t = DateFromTime (LocalTime z t)"

section \<open>Billing usage\<close>

text \<open>
  Division of JavaScript numbers, over the reals: \<open>None\<close> stands for the non-finite
  result (Infinity or NaN) of dividing by zero. \<open>z\<close> is the time zone of the host
  the handler runs on.
\<close>

definition jsDiv :: "real \<Rightarrow> real \<Rightarrow> real option" where
  "jsDiv a b = (if b = 0 then None else Some (a / b))"

definition startOfMonth :: "zone \<Rightarrow> int \<Rightarrow> int" where
  "startOfMonth z now = newDate z (getFullYear z now) (getMonth z now) 1"

definition daysInMonth :: "zone \<Rightarrow> int \<Rightarrow> int" where
  "daysInMonth z now = getDate z (newDate z (getFullYear z now) (getMonth z now + 1) 0)"

definition daysPassed :: "zone \<Rightarrow> int \<Rightarrow> int" where
  "daysPassed z now = getDate z now"

text \<open>\<^verbatim>\<open>Math.ceil((now - serverStartDate) / (1000 * 60 * 60 * 24))\<close>.\<close>

definition daysUsed :: "zone \<Rightarrow> int \<Rightarrow> server \<Rightarrow> int" where
  "daysUsed z now s =
     (let serverStartDate = (if createdAt s > startOfMonth z now then createdAt s
                             else startOfMonth z now)
      in \<lceil>real_of_int (now - serverStartDate) / (1000 * 60 * 60 * 24)\<rceil>)"

definition proratedCost :: "zone \<Rightarrow> int \<Rightarrow> server \<Rightarrow> real option" where
  "proratedCost z now s =
     map_option (\<lambda>q. q * real_of_int (min (daysUsed z now s) (daysPassed z now)))
       (jsDiv (monthlyPrice s) (real_of_int (daysInMonth z now)))"

text \<open>The rows selected by the handler: the organisation's active servers.\<close>

definition activeServers :: "string \<Rightarrow> state \<Rightarrow> server list" where
  "activeServers org st =
     filter (\<lambda>s. organizationId s = org \<and> isActive s)
       (List.map_filter (servers st) [0..<nextId st])"

record usage =
  currentCosts :: "real list"
  totalServers :: nat
  estimatedMonthlyCost :: real
  currentMonthUsage :: real
  projectedMonthlyCost :: real

text \<open>\<^verbatim>\<open>GET /usage\<close>, the cost figures of its response.\<close>

definition billingUsage :: "zone \<Rightarrow> string \<Rightarrow> int \<Rightarrow> state \<Rightarrow> usage option" where
  "billingUsage z org now st =
     (let rows = activeServers org st in
      case those (map (proratedCost z now) rows) of
        None \<Rightarrow> None
      | Some costs \<Rightarrow>
          (case jsDiv (sum_list costs) (real_of_int (daysPassed z now)) of
             None \<Rightarrow> None
           | Some q \<Rightarrow>
               Some \<lparr>currentCosts = costs,
                     totalServers = length rows,
                     estimatedMonthlyCost = sum_list (map monthlyPrice rows),
                     currentMonthUsage = sum_list costs,
                     projectedMonthlyCost = q * real_of_int (daysInMonth z now)\<rparr>))"

section \<open>Invariants and sample inputs\<close>

text \<open>
  The registry and the live timers agree: every live timer is the one registered for
  its server, every registered handle is live, handles are not reused.
\<close>

definition registryOk :: "state \<Rightarrow> bool" where
  "registryOk st \<longleftrightarrow>
     distinct (map fst (intervals st))
     \<and> (\<forall>t \<in> set (intervals st). fst t < nextId st \<and> metricsIntervals st (snd t) = Some (fst t))
     \<and> (\<forall>sid h. metricsIntervals st sid = Some h \<longrightarrow> (h, sid) \<in> set (intervals st))"

text \<open>Sample ids are distinct and below the counter.\<close>

definition idsFresh :: "state \<Rightarrow> bool" where
  "idsFresh st \<longleftrightarrow>
     distinct (map metricId (metrics st)) \<and> (\<forall>m \<in> set (metrics st). metricId m < nextId st)"

text \<open>A request body, the outside readings of a callback, and a few runs used as examples.\<close>

definition body0 :: create_body where
  "body0 = \<lparr>b_name = ''web'', b_provider = ''aws'', b_region = ''eu'',
     b_instanceType = ''t3.micro'', b_cpu = None, b_memory = None, b_storage = None\<rparr>"

definition env0 :: env where
  "env0 = \<lparr>e_ip = ''10.1.2.3'', e_storeError = False, e_random = 1 / 2\<rparr>"

definition provisioned :: "event list" where
  "provisioned = [CreateServer instanceSpecs ''org'' 0 body0, Fire (ProvisionDone 0) env0]"

text \<open>Server ids in use are below the counter.\<close>

definition idsOk :: "state \<Rightarrow> bool" where
  "idsOk st \<longleftrightarrow> (\<forall>i. servers st i \<noteq> None \<longrightarrow> i < nextId st)"

text \<open>
  The lifecycle graph as the specification words it: pending to running or failed,
  running to stopped, stopped to running, any non-terminal state to terminated.
\<close>

definition terminal :: "server_status \<Rightarrow> bool" where
  "terminal s = (s = Failed \<or> s = Terminated)"

definition specEdge :: "server_status \<Rightarrow> server_status \<Rightarrow> bool" where
  "specEdge a b =
     ((a = Pending \<and> b = Running) \<or> (a = Pending \<and> b = Failed)
      \<or> (a = Running \<and> b = Stopped) \<or> (a = Stopped \<and> b = Running)
      \<or> (\<not> terminal a \<and> b = Terminated))"

text \<open>
  Between two states every server keeps its status or moves along an edge of that
  graph, and a server that appears is pending.
\<close>

definition followsGraph :: "state \<Rightarrow> state \<Rightarrow> bool" where
  "followsGraph st st' =
     list_all (\<lambda>i. case servers st' i of
                     None \<Rightarrow> True
                   | Some s' \<Rightarrow>
                       (case servers st i of
                          None \<Rightarrow> status s' = Pending
                        | Some s \<Rightarrow> status s' = status s \<or> specEdge (status s) (status s')))
       [0..<nextId st']"

definition created :: "event list" where
  "created = [CreateServer instanceSpecs ''org'' 0 body0]"

definition stoppedEarly :: "event list" where
  "stoppedEarly = [CreateServer instanceSpecs ''org'' 0 body0, StopRequest ''org'' 0]"

definition deployedRun :: "event list" where
  "deployedRun = provisioned @ [CreateDeployment ''org'' 0 True ''app'' 0,
      Fire (BuildStart 2) env0, Fire (BuildFinish 2) env0]"

definition body8 :: create_body where
  "body8 = body0\<lparr>b_cpu := Some 8\<rparr>"

definition body1 :: create_body where
  "body1 = body0\<lparr>b_name := ''db''\<rparr>"

text \<open>The catalog with one price changed.\<close>

definition catalog2 :: catalog where
  "catalog2 = instanceSpecs(''aws'' \<mapsto> [''t3.micro'' \<mapsto> spec 2 1 20 100 99])"

definition rd :: "real \<Rightarrow> real \<Rightarrow> real \<Rightarrow> reading" where
  "rd c m d = \<lparr>r_cpu = c, r_memory = m, r_disk = d, r_in = 0, r_out = 0\<rparr>"

text \<open>
  One provisioned server whose timer (handle 1) ticks thirteen times: nine early busy
  samples, then one at the thresholds, one just over the cpu threshold, one over memory
  and disk, one over disk only.
\<close>

definition alertRun :: "event list" where
  "alertRun = provisioned @ map (\<lambda>i. Tick 1 (rd 99 0 0) (100 + int i)) [0..<9]
     @ [Tick 1 (rd 80 85 90) 1000, Tick 1 (rd 80.1 0 0) 2000,
        Tick 1 (rd 0 86 95) 3000, Tick 1 (rd 0 0 91) 4000]"

definition atThreshold :: metric where
  "atThreshold = \<lparr>metricId = 0, serverId = 0, cpuUsage = 80, memoryUsage = 85, diskUsage = 90,
     networkIn = 0, networkOut = 0, timestamp = 0\<rparr>"

definition justOver :: metric where
  "justOver = atThreshold\<lparr>cpuUsage := 80.1\<rparr>"

text \<open>
  A zone is sound when a local midnight taken to UTC and back stays on its day (it comes
  back unchanged, or later by the width of a skipped hour), and the offsets of the zone
  differ by a day at most.
\<close>

definition zoneOk :: "zone \<Rightarrow> bool" where
  "zoneOk z \<longleftrightarrow>
     (\<forall>t. t \<le> LocalTime z (UTC z t) \<and> LocalTime z (UTC z t) < t + msPerDay)
     \<and> (\<forall>t u. \<bar>LocalTZA z t False - LocalTZA z u True\<bar> \<le> msPerDay)"

definition utcZone :: zone where
  "utcZone = \<lparr>tzaUTC = (\<lambda>t. 0), tzaLocal = (\<lambda>t. 0)\<rparr>"

text \<open>
  Australia/Sydney around April 2024: eleven hours ahead of UTC until daylight time ends
  on 2024-04-07 at 03:00 local (2024-04-06T16:00:00Z), ten hours ahead afterwards.
\<close>

definition sydney :: zone where
  "sydney = \<lparr>tzaUTC = (\<lambda>t. if t < 1712419200000 then 39600000 else 36000000),
              tzaLocal = (\<lambda>t. if t < 1712458800000 then 39600000 else 36000000)\<rparr>"

text \<open>
  A server priced 30 a month, created at the start of April 2024 in Sydney
  (2024-03-31T13:00:00Z).
\<close>

definition server30 :: server where
  "server30 = \<lparr>cpu = 1, memory = 1, storage = 10, bandwidth = 100, monthlyPrice = 30,
     name = ''s'', ipAddress = ''10.0.0.1'', region = ''eu'', provider = ''aws'',
     instanceType = ''t3.micro'', organizationId = ''org'', status = Running,
     isActive = True, createdAt = 1711890000000\<rparr>"

definition billingState :: state where
  "billingState = initial_state\<lparr>servers := [0 \<mapsto> server30], nextId := 1\<rparr>"

text \<open>
  A deployed application on a running server, then a second server created; the row of
  that second server (id 3) is then removed from the store while its provisioning
  completion is still pending.
\<close>

definition orphaned :: state where
  "orphaned =
     (let st = run (deployedRun @ [CreateServer instanceSpecs ''org'' 0 body1]) initial_state
      in st\<lparr>servers := (servers st)(3 := None)\<rparr>)"

text \<open>
  One provisioned server whose timer ticks 101 times within a few seconds: first a
  sample over every threshold, then a hundred quiet ones.
\<close>

definition crowdedRun :: "event list" where
  "crowdedRun = provisioned @ [Tick 1 (rd 99 99 99) 1000]
     @ map (\<lambda>i. Tick 1 (rd 10 10 10) (2000 + int i)) [0..<100]"

definition sampleRow :: "nat \<Rightarrow> nat \<Rightarrow> reading \<Rightarrow> int \<Rightarrow> metric" where
  "sampleRow i sid r now = \<lparr>metricId = i, serverId = sid, cpuUsage = r_cpu r,
     memoryUsage = r_memory r, diskUsage = r_disk r, networkIn = r_in r,
     networkOut = r_out r, timestamp = now\<rparr>"

text \<open>The state that run reaches, written out: the first sample, then the hundred.\<close>

definition crowdedStart :: state where
  "crowdedStart = run (provisioned @ [Tick 1 (rd 99 99 99) 1000]) initial_state"

definition crowded :: state where
  "crowded = crowdedStart\<lparr>metrics := metrics crowdedStart
       @ map (\<lambda>i. sampleRow (nextId crowdedStart + i) 0 (rd 10 10 10) (2000 + int i)) [0..<100],
     nextId := nextId crowdedStart + 100\<rparr>"

section \<open>Calendar facts\<close>
lemma step_div:
  fixes x n :: int
  assumes "0 < n"
  shows "(x + 1) div n = x div n + (if (x + 1) mod n = 0 then 1 else 0)"
proof -
  define q where "q = x div n"
  define r where "r = x mod n"
  have x: "x = n * q + r" and r0: "0 \<le> r" and rn: "r < n"
    using assms by (simp_all add: q_def r_def)
  show ?thesis
  proof (cases "r + 1 < n")
    case True
    have e: "x + 1 = n * q + (r + 1)" using x by simp
    have "(x + 1) div n = q" using e r0 True by (intro int_div_pos_eq[where r = "r + 1"]) auto
    moreover have "(x + 1) mod n = r + 1" using e r0 True by (intro int_mod_pos_eq[where q = q]) auto
    ultimately show ?thesis using r0 by (simp add: q_def)
  next
    case False
    then have rn1: "r + 1 = n" using rn by simp
    have e: "x + 1 = n * (q + 1) + 0" using x rn1 by (simp add: algebra_simps)
    have "(x + 1) div n = q + 1" using e assms by (intro int_div_pos_eq[where r = 0]) auto
    moreover have "(x + 1) mod n = 0" using e assms by (intro int_mod_pos_eq[where q = "q + 1"]) auto
    ultimately show ?thesis by (simp add: q_def)
  qed
qed

lemma shift_mod: "((y::int) - k * n) mod n = y mod n"
  by (metis mod_diff_cong mod_mult_self2_is_0 diff_zero mod_mod_trivial)

lemma DayFromYear_step: "DayFromYear (y + 1) = DayFromYear y + DaysInYear y"
proof -
  have a: "(y - 1968) div 4 = (y - 1969) div 4 + (if y mod 4 = 0 then 1 else 0)"
    using step_div[of 4 "y - 1969"] shift_mod[of y 492 4] by simp
  have b: "(y - 1900) div 100 = (y - 1901) div 100 + (if y mod 100 = 0 then 1 else 0)"
    using step_div[of 100 "y - 1901"] shift_mod[of y 19 100] by simp
  have c: "(y - 1600) div 400 = (y - 1601) div 400 + (if y mod 400 = 0 then 1 else 0)"
    using step_div[of 400 "y - 1601"] shift_mod[of y 4 400] by simp
  have d: "y mod 400 = 0 \<Longrightarrow> y mod 100 = 0"
    using mod_mod_cancel[of 100 400 y] by simp
  have e: "y mod 100 = 0 \<Longrightarrow> y mod 4 = 0"
    using mod_mod_cancel[of 4 100 y] by simp
  have s: "y + 1 - 1969 = y - 1968" "y + 1 - 1901 = y - 1900" "y + 1 - 1601 = y - 1600"
        "y + 1 - 1970 = y - 1969" by simp_all
  show ?thesis
    unfolding DayFromYear_def DaysInYear_def s a b c using d e by auto
qed

lemma DaysInYear_cases: "DaysInYear y = 365 \<or> DaysInYear y = 366"
  by (simp add: DaysInYear_def)

lemma DayFromYear_mono_aux: "0 \<le> k \<Longrightarrow> DayFromYear y + 365 * k \<le> DayFromYear (y + k)"
proof (induction k rule: int_ge_induct)
  case base
  then show ?case by simp
next
  case (step i)
  have "DayFromYear (y + (i + 1)) = DayFromYear (y + i) + DaysInYear (y + i)"
    using DayFromYear_step[of "y + i"] by (simp add: add.assoc)
  then show ?case using step DaysInYear_cases[of "y + i"] by auto
qed

lemma DayFromYear_mono: "y \<le> z \<Longrightarrow> DayFromYear y \<le> DayFromYear z"
  using DayFromYear_mono_aux[of "z - y" y] by simp

lemma DayFromYear_strict: "y < z \<Longrightarrow> DayFromYear y < DayFromYear z"
  using DayFromYear_mono_aux[of "z - y" y] by simp

lemma yearUp_bounds:
  "DayFromYear y \<le> d \<Longrightarrow> DayFromYear (yearUp d y) \<le> d \<and> d < DayFromYear (yearUp d y + 1)"
proof (induction d y rule: yearUp.induct)
  case (1 d y)
  show ?case
  proof (cases "DayFromYear (y + 1) \<le> d")
    case True
    then show ?thesis using "1.IH" by (subst (1 2) yearUp.simps) simp
  next
    case False
    then show ?thesis using "1.prems" by (subst (1 2) yearUp.simps) simp
  qed
qed

lemma yearDown_bounds:
  "d < DayFromYear (y + 1) \<Longrightarrow> DayFromYear (yearDown d y) \<le> d \<and> d < DayFromYear (yearDown d y + 1)"
proof (induction d y rule: yearDown.induct)
  case (1 d y)
  show ?case
  proof (cases "d < DayFromYear y")
    case True
    then show ?thesis using "1.IH" by (subst (1 2) yearDown.simps) simp
  next
    case False
    then show ?thesis using "1.prems" by (subst (1 2) yearDown.simps) simp
  qed
qed

lemma DayFromYear_1970: "DayFromYear 1970 = 0" "DayFromYear 1971 = 365"
  by (simp_all add: DayFromYear_def)

lemma YearFromTime_bounds:
  "DayFromYear (YearFromTime t) \<le> Day t \<and> Day t < DayFromYear (YearFromTime t + 1)"
proof (cases "0 \<le> Day t")
  case True
  then show ?thesis
    using yearUp_bounds[of 1970 "Day t"] by (simp add: YearFromTime_def DayFromYear_1970)
next
  case False
  then show ?thesis
    using yearDown_bounds[of "Day t" 1970] by (simp add: YearFromTime_def DayFromYear_1970)
qed

lemma YearFromTime_unique:
  assumes "DayFromYear y \<le> Day t" "Day t < DayFromYear (y + 1)"
  shows "YearFromTime t = y"
proof (rule ccontr)
  assume ne: "YearFromTime t \<noteq> y"
  note b = YearFromTime_bounds[of t]
  show False
  proof (cases "YearFromTime t < y")
    case True
    then have "DayFromYear (YearFromTime t + 1) \<le> DayFromYear y"
      by (intro DayFromYear_mono) simp
    then show False using b assms by linarith
  next
    case False
    then have "y + 1 \<le> YearFromTime t" using ne by simp
    then have "DayFromYear (y + 1) \<le> DayFromYear (YearFromTime t)"
      by (rule DayFromYear_mono)
    then show False using b assms by linarith
  qed
qed

lemma DayWithinYear_range:
  "0 \<le> DayWithinYear t \<and> DayWithinYear t < 365 + leapDays (YearFromTime t)"
  using YearFromTime_bounds[of t] DayFromYear_step[of "YearFromTime t"]
        DaysInYear_cases[of "YearFromTime t"]
  by (auto simp: DayWithinYear_def leapDays_def)

lemma MonthFromTime_range: "0 \<le> MonthFromTime t \<and> MonthFromTime t \<le> 11"
  by (simp add: MonthFromTime_def Let_def)

lemma leapDays_cases: "leapDays y = 0 \<or> leapDays y = 1"
  by (simp add: leapDays_def)

lemma DateFromTime_range: "1 \<le> DateFromTime t \<and> DateFromTime t \<le> 31"
  using DayWithinYear_range[of t] leapDays_cases[of "YearFromTime t"]
  unfolding DateFromTime_def MonthFromTime_def monthStart_def Let_def
  by (auto split: if_splits)


lemma Day_times: "Day (d * msPerDay) = d"
  by (simp add: Day_def msPerDay_def)

lemma DayFromYear_next:
  "DayFromYear (y + 1) = DayFromYear y + 365 + leapDays y"
  using DayFromYear_step[of y] DaysInYear_cases[of y] by (auto simp: leapDays_def)

lemma year_of_day:
  assumes "DayFromYear y \<le> d" "d < DayFromYear y + 365 + leapDays y"
  shows "YearFromTime (d * msPerDay) = y"
  using assms by (intro YearFromTime_unique) (simp_all add: Day_times DayFromYear_next)

lemma date_of_day:
  assumes "0 \<le> k" "k < 365 + leapDays y"
  shows "DateFromTime ((DayFromYear y + k) * msPerDay)
         = k - monthStart (MonthFromTime ((DayFromYear y + k) * msPerDay)) (leapDays y) + 1"
    and "MonthFromTime ((DayFromYear y + k) * msPerDay) =
      (let l = leapDays y in
      if k < 31 then 0 else if k < 59 + l then 1 else if k < 90 + l then 2
      else if k < 120 + l then 3 else if k < 151 + l then 4 else if k < 181 + l then 5
      else if k < 212 + l then 6 else if k < 243 + l then 7 else if k < 273 + l then 8
      else if k < 304 + l then 9 else if k < 334 + l then 10 else 11)"
proof -
  have y: "YearFromTime ((DayFromYear y + k) * msPerDay) = y"
    using assms by (intro year_of_day) simp_all
  have w: "DayWithinYear ((DayFromYear y + k) * msPerDay) = k"
    by (simp add: DayWithinYear_def y Day_times)
  show "DateFromTime ((DayFromYear y + k) * msPerDay)
         = k - monthStart (MonthFromTime ((DayFromYear y + k) * msPerDay)) (leapDays y) + 1"
    by (simp add: DateFromTime_def y w)
  show "MonthFromTime ((DayFromYear y + k) * msPerDay) =
      (let l = leapDays y in
      if k < 31 then 0 else if k < 59 + l then 1 else if k < 90 + l then 2
      else if k < 120 + l then 3 else if k < 151 + l then 4 else if k < 181 + l then 5
      else if k < 212 + l then 6 else if k < 243 + l then 7 else if k < 273 + l then 8
      else if k < 304 + l then 9 else if k < 334 + l then 10 else 11)"
    by (simp add: MonthFromTime_def y w)
qed


lemma Day_bounds: "Day t * msPerDay \<le> t \<and> t < Day t * msPerDay + msPerDay"
  unfolding Day_def msPerDay_def
  using pos_mod_bound[of 86400000 t] pos_mod_sign[of 86400000 t] div_mult_mod_eq[of t 86400000]
  by linarith


lemma Day_within: "d * msPerDay \<le> t \<Longrightarrow> t < d * msPerDay + msPerDay \<Longrightarrow> Day t = d"
  unfolding Day_def msPerDay_def
  by (intro int_div_pos_eq[where r = "t - d * 86400000"]) simp_all

text \<open>Year, month and date of a time value depend on its day only.\<close>

lemma by_day:
  assumes "Day t = Day u"
  shows "YearFromTime t = YearFromTime u" "MonthFromTime t = MonthFromTime u"
        "DateFromTime t = DateFromTime u"
proof -
  show y: "YearFromTime t = YearFromTime u" using assms by (simp add: YearFromTime_def)
  have w: "DayWithinYear t = DayWithinYear u" using assms y by (simp add: DayWithinYear_def)
  show m: "MonthFromTime t = MonthFromTime u" by (simp add: MonthFromTime_def y w)
  show "DateFromTime t = DateFromTime u" by (simp add: DateFromTime_def y w m)
qed

text \<open>The \<open>k\<close>-th day after the first of month \<open>m\<close> falls in that month, for k < 28.\<close>

lemma day_in_month:
  assumes "0 \<le> m" "m \<le> 11" "0 \<le> k" "k < 28"
  shows "DateFromTime ((DayFromYear y + monthStart m (leapDays y) + k) * msPerDay) = k + 1"
proof -
  have m: "m = 0 \<or> m = 1 \<or> m = 2 \<or> m = 3 \<or> m = 4 \<or> m = 5 \<or> m = 6 \<or> m = 7
      \<or> m = 8 \<or> m = 9 \<or> m = 10 \<or> m = 11"
    using assms(1,2) by presburger
  have l: "leapDays y = 0 \<or> leapDays y = 1" by (rule leapDays_cases)
  have r: "0 \<le> monthStart m (leapDays y) + k"
          "monthStart m (leapDays y) + k < 365 + leapDays y"
    using m l assms(3,4) by (elim disjE; simp add: monthStart_def)+
  have e: "(DayFromYear y + monthStart m (leapDays y) + k) * msPerDay
           = (DayFromYear y + (monthStart m (leapDays y) + k)) * msPerDay" by simp
  have "k + monthStart m (leapDays y)
          - monthStart (MonthFromTime ((DayFromYear y + (monthStart m (leapDays y) + k)) * msPerDay))
              (leapDays y) = k"
    unfolding date_of_day(2)[OF r]
    using m l assms(3,4) by (elim disjE; simp add: monthStart_def Let_def)
  then show ?thesis
    unfolding e date_of_day(1)[OF r] by simp
qed

lemma last_day_of_month:
  assumes "0 \<le> m" "m \<le> 11"
  shows "28 \<le> DateFromTime (MakeDate (MakeDay y (m + 1) 0) 0)
         \<and> DateFromTime (MakeDate (MakeDay y (m + 1) 0) 0) \<le> 31"
proof (cases "m = 11")
  case True
  have l: "leapDays y = 0 \<or> leapDays y = 1" by (rule leapDays_cases)
  have "MakeDate (MakeDay y (m + 1) 0) 0 = (DayFromYear y + (364 + leapDays y)) * msPerDay"
    using True by (simp add: MakeDate_def MakeDay_def Let_def monthStart_def DayFromYear_next)
  then show ?thesis
    using date_of_day[of "364 + leapDays y" y] l
    by (auto simp: monthStart_def Let_def)
next
  case False
  then have "m = 0 \<or> m = 1 \<or> m = 2 \<or> m = 3 \<or> m = 4 \<or> m = 5 \<or> m = 6 \<or> m = 7
      \<or> m = 8 \<or> m = 9 \<or> m = 10"
    using assms by presburger
  then have m: "m \<in> {0,1,2,3,4,5,6,7,8,9,10}" by simp
  have l: "leapDays y = 0 \<or> leapDays y = 1" by (rule leapDays_cases)
  have dm: "(m + 1) div 12 = 0" "(m + 1) mod 12 = m + 1" using m by auto
  have nd: "MakeDate (MakeDay y (m + 1) 0) 0
            = (DayFromYear y + (monthStart (m + 1) (leapDays y) - 1)) * msPerDay"
    by (simp add: MakeDate_def MakeDay_def Let_def dm)
  have r: "0 \<le> monthStart (m + 1) (leapDays y) - 1"
          "monthStart (m + 1) (leapDays y) - 1 < 365 + leapDays y"
    using m l by (auto simp: monthStart_def)
  show ?thesis
    unfolding nd date_of_day(1)[OF r] date_of_day(2)[OF r]
    using m l by (auto simp: monthStart_def Let_def)
qed


lemma MakeDate_midnight: "MakeDate d 0 = d * msPerDay"
  by (simp add: MakeDate_def)

text \<open>In a sound zone a local midnight, taken to UTC and back, stays on its day.\<close>

lemma Day_round_trip: "zoneOk z \<Longrightarrow> Day (LocalTime z (UTC z (d * msPerDay))) = d"
  unfolding zoneOk_def by (intro Day_within) simp_all

lemma getDate_range: "1 \<le> getDate z now \<and> getDate z now \<le> 31"
  unfolding getDate_def by (rule DateFromTime_range)

lemma daysInMonth_pos: "1 \<le> daysInMonth z now"
  unfolding daysInMonth_def using getDate_range by simp

lemma daysInMonth_range:
  assumes "zoneOk z"
  shows "28 \<le> daysInMonth z now \<and> daysInMonth z now \<le> 31"
proof -
  define yr where "yr = (if 0 \<le> getFullYear z now \<and> getFullYear z now \<le> 99
                          then 1900 + getFullYear z now else getFullYear z now)"
  define m where "m = getMonth z now"
  have m: "0 \<le> m" "m \<le> 11" using MonthFromTime_range by (simp_all add: m_def getMonth_def)
  have "Day (LocalTime z (UTC z (MakeDate (MakeDay yr (m + 1) 0) 0)))
        = Day (MakeDate (MakeDay yr (m + 1) 0) 0)"
    using Day_round_trip[OF assms] by (simp add: MakeDate_midnight Day_times)
  then have "DateFromTime (LocalTime z (UTC z (MakeDate (MakeDay yr (m + 1) 0) 0)))
        = DateFromTime (MakeDate (MakeDay yr (m + 1) 0) 0)"
    by (rule by_day(3))
  then have "daysInMonth z now = DateFromTime (MakeDate (MakeDay yr (m + 1) 0) 0)"
    by (simp add: daysInMonth_def getDate_def newDate_def Let_def yr_def m_def)
  then show ?thesis using last_day_of_month[OF m, of yr] by simp
qed

text \<open>The start of the month as a day number.\<close>

lemma startOfMonth_eq:
  "\<exists>yr. startOfMonth z now
        = UTC z ((DayFromYear yr + monthStart (getMonth z now) (leapDays yr)) * msPerDay)"
proof -
  have m: "getMonth z now div 12 = 0" "getMonth z now mod 12 = getMonth z now"
    using MonthFromTime_range[of "LocalTime z now"] by (auto simp: getMonth_def)
  show ?thesis
    by (auto simp: startOfMonth_def newDate_def MakeDate_def MakeDay_def Let_def m)
qed

text \<open>At the start of a month the day of the month is 1.\<close>

lemma first_instant:
  assumes "zoneOk z" "now = startOfMonth z now"
  shows "getDate z now = 1"
proof -
  obtain yr where s: "startOfMonth z now
        = UTC z ((DayFromYear yr + monthStart (getMonth z now) (leapDays yr)) * msPerDay)"
    using startOfMonth_eq by blast
  have m: "0 \<le> getMonth z now" "getMonth z now \<le> 11"
    using MonthFromTime_range by (simp_all add: getMonth_def)
  have "Day (LocalTime z (startOfMonth z now))
        = Day ((DayFromYear yr + monthStart (getMonth z now) (leapDays yr) + 0) * msPerDay)"
    unfolding s using Day_round_trip[OF assms(1)] by (simp add: Day_times)
  then have "DateFromTime (LocalTime z (startOfMonth z now))
        = DateFromTime ((DayFromYear yr + monthStart (getMonth z now) (leapDays yr) + 0) * msPerDay)"
    by (rule by_day(3))
  then have "DateFromTime (LocalTime z (startOfMonth z now)) = 0 + 1"
    using day_in_month[OF m, of 0 yr] by simp
  then show ?thesis by (subst assms(2)) (simp add: getDate_def)
qed




lemma zoneOk_utc: "zoneOk utcZone"
  by (simp add: zoneOk_def utcZone_def LocalTime_def UTC_def LocalTZA_def msPerDay_def)

lemma zoneOk_sydney: "zoneOk sydney"
  by (auto simp: zoneOk_def sydney_def LocalTime_def UTC_def LocalTZA_def msPerDay_def)




section \<open>Retention: one tick\<close>

lemma take_Cons_take: "take j (y # take j ys) = take j (y # ys)"
  by (cases j) simp_all

lemma take_insort: "take k (insort x (take k xs)) = take k (insort (x::int) xs)"
proof (induction xs arbitrary: k)
  case Nil
  then show ?case by simp
next
  case (Cons y ys)
  show ?case
  proof (cases k)
    case 0
    then show ?thesis by simp
  next
    case (Suc j)
    then show ?thesis using Cons.IH[of j] by (simp add: take_Cons_take)
  qed
qed

lemma sort_snoc: "sort (xs @ [x]) = insort (x::int) (sort xs)"
  by (rule properties_for_sort) (simp_all add: sorted_insort)

lemma sort_cong_mset: "mset xs = mset ys \<Longrightarrow> sort xs = sort (ys :: int list)"
  by (rule properties_for_sort) simp_all

lemma sorted_take_sort: "sort (take k (sort xs)) = take k (sort (xs :: int list))"
  by (simp add: sorted_sort_id sorted_wrt_take)

lemma topk_step:
  assumes "mset ks = mset (take k (sort ps))"
  shows "take k (sort (ks @ [x])) = take k (sort (ps @ [x :: int]))"
proof -
  have "sort (ks @ [x]) = insort x (sort ks)" by (rule sort_snoc)
  also have "sort ks = sort (take k (sort ps))" using assms by (rule sort_cong_mset)
  also have "\<dots> = take k (sort ps)" by (rule sorted_take_sort)
  finally have "take k (sort (ks @ [x])) = take k (insort x (take k (sort ps)))" by simp
  also have "\<dots> = take k (insort x (sort ps))" by (rule take_insort)
  also have "\<dots> = take k (sort (ps @ [x]))" by (simp add: sort_snoc)
  finally show ?thesis .
qed

lemma map_key_sort_key: "map f (sort_key f xs) = sort (map f xs)" for f :: "'a \<Rightarrow> int"
  by (rule properties_for_sort[symmetric]) simp_all

lemma rev_sort_uminus: "map uminus (sort (map uminus ts)) = rev (sort (ts :: int list))"
proof -
  have "sort (map uminus ts) = map uminus (rev (sort ts))"
  proof (rule properties_for_sort)
    show "mset (map uminus (rev (sort ts))) = mset (map uminus ts)" by simp
    show "sorted (map uminus (rev (sort ts)))"
      by (simp add: sorted_map sorted_wrt_rev)
  qed
  then show ?thesis by (simp add: comp_def)
qed


lemma collectMetrics_metrics:
  "metrics (collectMetrics sid r now st) =
     (let m = \<lparr>metricId = nextId st, serverId = sid, cpuUsage = r_cpu r,
                memoryUsage = r_memory r, diskUsage = r_disk r, networkIn = r_in r,
                networkOut = r_out r, timestamp = now\<rparr>;
          ms = metrics st @ [m];
          old = drop 1000 (newestFirst (filter (\<lambda>m. serverId m = sid) ms))
      in filter (\<lambda>m. metricId m \<notin> set (map metricId old)) ms)"
  by (simp add: collectMetrics_def createMetric_def findManySkip_def deleteMany_def Let_def)

lemma collectMetrics_nextId: "nextId (collectMetrics sid r now st) = Suc (nextId st)"
  by (simp add: collectMetrics_def createMetric_def findManySkip_def deleteMany_def Let_def)

lemma idsFresh_collect: "idsFresh st \<Longrightarrow> idsFresh (collectMetrics sid r now st)"
  unfolding idsFresh_def collectMetrics_metrics collectMetrics_nextId Let_def
  by (auto simp: distinct_map_filter less_Suc_eq)

lemma set_newestFirst: "set (newestFirst ms) = set ms"
  by (simp add: newestFirst_def)

lemma old_subset: "set (drop k (newestFirst (filter P ms))) \<subseteq> {m \<in> set ms. P m}"
  using set_drop_subset[of k "newestFirst (filter P ms)"] by (auto simp: set_newestFirst)

text \<open>Deleting by id the rows behind the newest k, when ids are distinct.\<close>

lemma prune_mset:
  assumes "distinct (map metricId S)"
  shows "mset (filter (\<lambda>m. metricId m \<notin> set (map metricId (drop k (newestFirst S)))) S)
         = mset (take k (newestFirst S))"
proof -
  let ?L = "newestFirst S"
  have dS: "distinct S" using assms by (simp add: distinct_map)
  have inj: "inj_on metricId (set S)" using assms by (simp add: distinct_map)
  have mL: "mset ?L = mset S" by (simp add: newestFirst_def)
  have dL: "distinct ?L" using dS by (simp add: newestFirst_def)
  have sub: "set (drop k ?L) \<subseteq> set S" using set_drop_subset[of k ?L] by (simp add: set_newestFirst)
  have eq: "\<And>m. m \<in> set S \<Longrightarrow> (metricId m \<notin> set (map metricId (drop k ?L))) = (m \<notin> set (drop k ?L))"
    using inj sub by (auto simp: inj_on_def)
  have "filter (\<lambda>m. metricId m \<notin> set (map metricId (drop k ?L))) S = filter (\<lambda>m. m \<notin> set (drop k ?L)) S"
    by (rule filter_cong) (use eq in auto)
  then have "mset (filter (\<lambda>m. metricId m \<notin> set (map metricId (drop k ?L))) S)
     = filter_mset (\<lambda>m. m \<notin> set (drop k ?L)) (mset ?L)" by (simp add: mL)
  also have "\<dots> = filter_mset (\<lambda>m. m \<notin> set (drop k ?L)) (mset (take k ?L) + mset (drop k ?L))"
    by (metis append_take_drop_id mset_append)
  also have "\<dots> = mset (take k ?L)"
  proof -
    have disj: "set (take k ?L) \<inter> set (drop k ?L) = {}"
      using dL by (metis append_take_drop_id distinct_append)
    have a: "filter (\<lambda>m. m \<notin> set (drop k ?L)) (take k ?L) = take k ?L"
      using disj by (intro filter_True) auto
    have b: "filter (\<lambda>m. m \<notin> set (drop k ?L)) (drop k ?L) = []"
      by (simp add: filter_empty_conv)
    have "filter_mset (\<lambda>m. m \<notin> set (drop k ?L)) (mset (take k ?L) + mset (drop k ?L))
          = mset (filter (\<lambda>m. m \<notin> set (drop k ?L)) (take k ?L))
            + mset (filter (\<lambda>m. m \<notin> set (drop k ?L)) (drop k ?L))"
      by simp
    then show ?thesis by (simp only: a b) simp
  qed
  finally show ?thesis .
qed


lemma samplesOf_collect_other:
  assumes "idsFresh st" "s \<noteq> sid"
  shows "samplesOf s (collectMetrics sid r now st) = samplesOf s st"
proof -
  let ?m = "\<lparr>metricId = nextId st, serverId = sid, cpuUsage = r_cpu r,
                memoryUsage = r_memory r, diskUsage = r_disk r, networkIn = r_in r,
                networkOut = r_out r, timestamp = now\<rparr>"
  let ?ms = "metrics st @ [?m]"
  let ?old = "drop 1000 (newestFirst (filter (\<lambda>m. serverId m = sid) ?ms))"
  have d: "distinct (map metricId ?ms)" using assms(1) by (auto simp: idsFresh_def)
  have sub: "set ?old \<subseteq> {m \<in> set ?ms. serverId m = sid}" by (rule old_subset)
  have keep: "\<And>x. x \<in> set ?ms \<Longrightarrow> serverId x = s \<Longrightarrow> metricId x \<notin> set (map metricId ?old)"
  proof
    fix x assume x: "x \<in> set ?ms" "serverId x = s" "metricId x \<in> set (map metricId ?old)"
    then obtain y where y: "y \<in> set ?old" "metricId y = metricId x" by auto
    then have "y \<in> set ?ms" "serverId y = sid" using sub by auto
    then have "y = x" using d x(1) y(2) by (meson distinct_map inj_on_def)
    then show False using \<open>serverId y = sid\<close> x(2) assms(2) by simp
  qed
  have "filter (\<lambda>m. serverId m = s) (filter (\<lambda>m. metricId m \<notin> set (map metricId ?old)) ?ms)
        = filter (\<lambda>m. serverId m = s) ?ms"
    unfolding filter_filter by (rule filter_cong) (use keep in auto)
  then show ?thesis
    using assms(2) by (simp add: samplesOf_def collectMetrics_metrics Let_def)
qed

lemma samplesOf_collect_same:
  assumes "idsFresh st"
  shows "mset (samplesOf sid (collectMetrics sid r now st))
         = mset (take 1000 (newestFirst (samplesOf sid st @
             [\<lparr>metricId = nextId st, serverId = sid, cpuUsage = r_cpu r,
                memoryUsage = r_memory r, diskUsage = r_disk r, networkIn = r_in r,
                networkOut = r_out r, timestamp = now\<rparr>])))"
proof -
  let ?m = "\<lparr>metricId = nextId st, serverId = sid, cpuUsage = r_cpu r,
                memoryUsage = r_memory r, diskUsage = r_disk r, networkIn = r_in r,
                networkOut = r_out r, timestamp = now\<rparr>"
  let ?ms = "metrics st @ [?m]"
  let ?S = "filter (\<lambda>m. serverId m = sid) ?ms"
  let ?old = "drop 1000 (newestFirst ?S)"
  have d: "distinct (map metricId ?ms)" using assms(1) by (auto simp: idsFresh_def)
  have dS: "distinct (map metricId ?S)" using d by (rule distinct_map_filter)
  have S: "?S = samplesOf sid st @ [?m]" by (simp add: samplesOf_def)
  have "samplesOf sid (collectMetrics sid r now st)
        = filter (\<lambda>m. serverId m = sid) (filter (\<lambda>m. metricId m \<notin> set (map metricId ?old)) ?ms)"
    by (simp add: samplesOf_def collectMetrics_metrics Let_def)
  also have "\<dots> = filter (\<lambda>m. metricId m \<notin> set (map metricId ?old)) ?S"
    unfolding filter_filter by (rule filter_cong) auto
  finally have "mset (samplesOf sid (collectMetrics sid r now st)) = mset (take 1000 (newestFirst ?S))"
    using prune_mset[OF dS, of 1000] by simp
  then show ?thesis unfolding S .
qed


lemma collectAll_snoc:
  "collectAll (ticks @ [(sid, r, now)]) st = collectMetrics sid r now (collectAll ticks st)"
  by (induction ticks st rule: collectAll.induct) simp_all

lemma idsFresh_initial: "idsFresh initial_state"
  by (simp add: idsFresh_def initial_state_def)

lemma idsFresh_collectAll: "idsFresh st \<Longrightarrow> idsFresh (collectAll ticks st)"
  by (induction ticks st rule: collectAll.induct) (simp_all add: idsFresh_collect)

lemma retention_keys:
  "mset (map (\<lambda>m. - timestamp m) (samplesOf s (collectAll ticks initial_state)))
   = mset (take 1000 (sort (map uminus (tickTimes s ticks))))"
proof (induction ticks rule: rev_induct)
  case Nil
  then show ?case by (simp add: samplesOf_def initial_state_def tickTimes_def)
next
  case (snoc t ticks)
  obtain sid r now where t: "t = (sid, r, now)" by (cases t) auto
  let ?st = "collectAll ticks initial_state"
  have fresh: "idsFresh ?st" using idsFresh_initial by (rule idsFresh_collectAll)
  show ?case
  proof (cases "s = sid")
    case False
    then show ?thesis
      using snoc.IH samplesOf_collect_other[OF fresh False]
      by (simp add: t collectAll_snoc tickTimes_def)
  next
    case True
    let ?key = "\<lambda>m. - timestamp m"
    let ?m = "\<lparr>metricId = nextId ?st, serverId = sid, cpuUsage = r_cpu r,
                memoryUsage = r_memory r, diskUsage = r_disk r, networkIn = r_in r,
                networkOut = r_out r, timestamp = now\<rparr>"
    let ?S = "samplesOf sid ?st"
    have "mset (map ?key (samplesOf sid (collectMetrics sid r now ?st)))
          = image_mset ?key (mset (samplesOf sid (collectMetrics sid r now ?st)))" by simp
    also have "\<dots> = image_mset ?key (mset (take 1000 (newestFirst (?S @ [?m]))))"
      using samplesOf_collect_same[OF fresh, of sid r now] by simp
    also have "\<dots> = mset (take 1000 (map ?key (sort_key ?key (?S @ [?m]))))"
      by (simp add: newestFirst_def take_map)
    also have "\<dots> = mset (take 1000 (sort (map ?key ?S @ [- now])))"
      by (simp only: map_key_sort_key) simp
    also have "\<dots> = mset (take 1000 (sort (map uminus (tickTimes sid ticks) @ [- now])))"
      using topk_step[of "map ?key ?S" 1000 "map uminus (tickTimes sid ticks)" "- now"]
            snoc.IH True by simp
    finally show ?thesis
      using True by (simp add: t collectAll_snoc tickTimes_def)
  qed
qed

section \<open>Collector registry\<close>

lemma registryOk_frame:
  "registryOk st \<Longrightarrow> intervals st' = intervals st \<Longrightarrow>
   metricsIntervals st' = metricsIntervals st \<Longrightarrow> nextId st \<le> nextId st' \<Longrightarrow> registryOk st'"
  unfolding registryOk_def by fastforce

lemma registryOk_initial: "registryOk initial_state"
  by (simp add: registryOk_def initial_state_def)

lemma registryOk_stop: "registryOk st \<Longrightarrow> registryOk (stopMetricsCollection sid st)"
  unfolding registryOk_def stopMetricsCollection_def clearInterval_def
  by (auto simp: distinct_map_filter Let_def split: option.splits dest: eq_key_imp_eq_value)

lemma stop_unregistered: "metricsIntervals (stopMetricsCollection sid st) sid = None"
  by (simp add: stopMetricsCollection_def clearInterval_def Let_def split: option.splits)

lemma activeTimers_unregistered:
  "registryOk st \<Longrightarrow> metricsIntervals st sid = None \<Longrightarrow> activeTimers sid st = []"
  unfolding registryOk_def activeTimers_def by (auto simp: filter_empty_conv)

lemma registryOk_start: "registryOk st \<Longrightarrow> registryOk (startMetricsCollection sid st)"
proof -
  assume "registryOk st"
  then have ok: "registryOk (stopMetricsCollection sid st)" by (rule registryOk_stop)
  have un: "metricsIntervals (stopMetricsCollection sid st) sid = None" by (rule stop_unregistered)
  show ?thesis
    using ok un unfolding startMetricsCollection_def setInterval_def registryOk_def Let_def
    by (auto simp: image_iff)
qed

lemma activeTimers_start:
  assumes "registryOk st"
  shows "\<exists>h. activeTimers sid (startMetricsCollection sid st) = [(h, sid)]"
proof -
  have ok: "registryOk (stopMetricsCollection sid st)" using assms by (rule registryOk_stop)
  have "activeTimers sid (stopMetricsCollection sid st) = []"
    using ok stop_unregistered by (rule activeTimers_unregistered)
  then show ?thesis
    by (simp add: startMetricsCollection_def setInterval_def activeTimers_def Let_def)
qed

lemma activeTimers_le1:
  assumes "registryOk st"
  shows "length (activeTimers sid st) \<le> 1"
proof (cases "metricsIntervals st sid")
  case None
  then show ?thesis using assms activeTimers_unregistered by simp
next
  case (Some h)
  have d: "distinct (activeTimers sid st)"
    using assms unfolding registryOk_def activeTimers_def
    by (simp add: distinct_map distinct_filter)
  have "set (activeTimers sid st) \<subseteq> {(h, sid)}"
    using assms Some unfolding registryOk_def activeTimers_def by fastforce
  then have "card (set (activeTimers sid st)) \<le> 1"
    by (metis card_mono card.empty card_insert_disjoint empty_iff finite.emptyI finite.insertI One_nat_def)
  then show ?thesis using d by (simp add: distinct_card)
qed


lemma updateServer_frame:
  "updateServer sid f st = Some st' \<Longrightarrow>
   intervals st' = intervals st \<and> metricsIntervals st' = metricsIntervals st \<and> nextId st' = nextId st
   \<and> timeouts st' = timeouts st \<and> metrics st' = metrics st \<and> deployments st' = deployments st"
  by (auto simp: updateServer_def split: option.splits)

lemma updateDeployment_frame:
  "updateDeployment did f st = Some st' \<Longrightarrow>
   intervals st' = intervals st \<and> metricsIntervals st' = metricsIntervals st \<and> nextId st' = nextId st
   \<and> timeouts st' = timeouts st \<and> metrics st' = metrics st \<and> servers st' = servers st"
  by (auto simp: updateDeployment_def split: option.splits)

lemma registryOk_updateServer:
  "registryOk st \<Longrightarrow> updateServer sid f st = Some st' \<Longrightarrow> registryOk st'"
  using updateServer_frame[of sid f st st'] registryOk_frame[of st st'] by simp

lemma registryOk_updateDeployment:
  "registryOk st \<Longrightarrow> updateDeployment did f st = Some st' \<Longrightarrow> registryOk st'"
  using updateDeployment_frame[of did f st st'] registryOk_frame[of st st'] by simp

lemma registryOk_setTimeout: "registryOk st \<Longrightarrow> registryOk (setTimeout t st)"
  by (erule registryOk_frame) (simp_all add: setTimeout_def)

lemma registryOk_provisionServer: "registryOk st \<Longrightarrow> registryOk (snd (provisionServer sid st))"
  by (auto simp: provisionServer_def registryOk_setTimeout split: option.splits
           dest: registryOk_updateServer)

lemma registryOk_POST_servers:
  assumes "registryOk st"
  shows "registryOk (snd (POST_servers cat org now b st))"
proof -
  have "registryOk (st\<lparr>servers := (servers st)(nextId st \<mapsto> row), nextId := Suc (nextId st)\<rparr>)" for row
    using assms by (rule registryOk_frame) simp_all
  then show ?thesis
    using assms registryOk_provisionServer
    by (auto simp: POST_servers_def Let_def split: sum.splits prod.splits) (metis snd_conv)+
qed

lemma registryOk_POST_start: "registryOk st \<Longrightarrow> registryOk (snd (POST_start org sid st))"
  by (auto simp: POST_start_def startServer_def split: option.splits
           intro: registryOk_start dest: registryOk_updateServer)

lemma registryOk_POST_stop: "registryOk st \<Longrightarrow> registryOk (snd (POST_stop org sid st))"
  by (auto simp: POST_stop_def stopServer_def split: option.splits
           intro: registryOk_stop dest: registryOk_updateServer)

lemma registryOk_POST_deployments:
  assumes "registryOk st"
  shows "registryOk (snd (POST_deployments org now valid n sid st))"
proof -
  have "registryOk (st\<lparr>deployments := (deployments st)(nextId st \<mapsto> row), nextId := Suc (nextId st)\<rparr>)" for row
    using assms by (rule registryOk_frame) simp_all
  then show ?thesis
    using assms by (auto simp: POST_deployments_def Let_def registryOk_setTimeout split: option.splits)
qed

lemma registryOk_POST_redeploy: "registryOk st \<Longrightarrow> registryOk (snd (POST_redeploy org now did st))"
  by (auto simp: POST_redeploy_def split: option.splits dest: registryOk_updateDeployment)

lemma registryOk_processExit: "registryOk (processExit st)"
  by (simp add: registryOk_def processExit_def)

lemma registryOk_runTask: "registryOk st \<Longrightarrow> registryOk (runTask t e st)"
  by (cases t)
     (auto simp: runTask_def provisionCallback_def buildStartCallback_def
                 buildFinishCallback_def Let_def registryOk_setTimeout registryOk_processExit
           split: option.splits if_splits
           intro: registryOk_start dest: registryOk_updateServer registryOk_updateDeployment)

lemma registryOk_fire: "registryOk st \<Longrightarrow> registryOk (fire t e st)"
proof -
  assume a: "registryOk st"
  have "registryOk (st\<lparr>timeouts := remove1 t (timeouts st)\<rparr>)"
    using a by (rule registryOk_frame) simp_all
  then show ?thesis using a by (simp add: fire_def registryOk_runTask)
qed

lemma registryOk_collectMetrics: "registryOk st \<Longrightarrow> registryOk (collectMetrics sid r now st)"
  by (erule registryOk_frame)
     (simp_all add: collectMetrics_def createMetric_def deleteMany_def Let_def)

lemma registryOk_intervalTick: "registryOk st \<Longrightarrow> registryOk (intervalTick h r now st)"
  by (simp add: intervalTick_def registryOk_collectMetrics split: option.splits)

lemma registryOk_step: "registryOk st \<Longrightarrow> registryOk (step ev st)"
  by (cases ev)
     (simp_all add: step_def registryOk_POST_servers registryOk_POST_start registryOk_POST_stop
        registryOk_POST_deployments registryOk_POST_redeploy registryOk_fire
        registryOk_intervalTick)

lemma registryOk_run: "registryOk st \<Longrightarrow> registryOk (run evs st)"
  by (induction evs arbitrary: st) (simp_all add: registryOk_step)

lemma stop_noop: "metricsIntervals st sid = None \<Longrightarrow> stopMetricsCollection sid st = st"
  by (simp add: stopMetricsCollection_def)

lemma registered_lt:
  "registryOk st \<Longrightarrow> metricsIntervals st sid = Some h \<Longrightarrow> h < nextId st"
  unfolding registryOk_def by fastforce

lemma start_cancels_old:
  assumes "registryOk st" "metricsIntervals st sid = Some h"
  shows "h \<notin> fst ` set (intervals (startMetricsCollection sid st))"
  using assms registered_lt[OF assms] unfolding registryOk_def startMetricsCollection_def stopMetricsCollection_def
     setInterval_def clearInterval_def Let_def
  by (auto simp: image_iff)


text \<open>
  C2. In every reachable state a server has at most one live collection timer. Starting
  collection leaves exactly one, and the handle registered before is no longer live;
  stopping leaves none, and does nothing when no task is registered.
\<close>

theorem collector_single_task:
  "length (activeTimers sid (run evs initial_state)) \<le> 1
   \<and> length (activeTimers sid (startMetricsCollection sid (run evs initial_state))) = 1
   \<and> (\<forall>h. metricsIntervals (run evs initial_state) sid = Some h \<longrightarrow>
          h \<notin> fst ` set (intervals (startMetricsCollection sid (run evs initial_state))))
   \<and> activeTimers sid (stopMetricsCollection sid (run evs initial_state)) = []
   \<and> (metricsIntervals st sid = None \<longrightarrow> stopMetricsCollection sid st = st)"
proof -
  have ok: "registryOk (run evs initial_state)"
    using registryOk_initial by (rule registryOk_run)
  have a: "length (activeTimers sid (run evs initial_state)) \<le> 1"
    using ok by (rule activeTimers_le1)
  have b: "length (activeTimers sid (startMetricsCollection sid (run evs initial_state))) = 1"
    using activeTimers_start[OF ok, of sid] by auto
  have c: "\<forall>h. metricsIntervals (run evs initial_state) sid = Some h \<longrightarrow>
          h \<notin> fst ` set (intervals (startMetricsCollection sid (run evs initial_state)))"
    using start_cancels_old[OF ok] by blast
  have d: "activeTimers sid (stopMetricsCollection sid (run evs initial_state)) = []"
    using registryOk_stop[OF ok] stop_unregistered by (rule activeTimers_unregistered)
  show ?thesis using a b c d stop_noop by blast
qed


theorem collector_single_task_witness:
  "metricsIntervals (run provisioned initial_state) 0 = Some 1
   \<and> 1 \<notin> fst ` set (intervals (startMetricsCollection 0 (run provisioned initial_state)))
   \<and> length (activeTimers 0 (startMetricsCollection 0 (run provisioned initial_state))) = 1
   \<and> metricsIntervals initial_state 0 = None
   \<and> stopMetricsCollection 0 initial_state = initial_state"
proof -
  have h1: "metricsIntervals (run provisioned initial_state) 0 = Some 1" by code_simp
  have h2: "metricsIntervals initial_state 0 = None" by (simp add: initial_state_def)
  show ?thesis
    using collector_single_task[where sid = 0 and evs = provisioned and st = initial_state] h1 h2
    by blast
qed


section \<open>Effect of one step on the server table\<close>

lemma servers_stop [simp]: "servers (stopMetricsCollection sid st) = servers st"
  by (simp add: stopMetricsCollection_def clearInterval_def Let_def split: option.splits)

lemma servers_start [simp]: "servers (startMetricsCollection sid st) = servers st"
  by (simp add: startMetricsCollection_def setInterval_def Let_def)

lemma nextId_stop [simp]: "nextId (stopMetricsCollection sid st) = nextId st"
  by (simp add: stopMetricsCollection_def clearInterval_def Let_def split: option.splits)

lemma nextId_start [simp]: "nextId (startMetricsCollection sid st) = Suc (nextId st)"
  by (simp add: startMetricsCollection_def setInterval_def Let_def)

lemma servers_collect [simp]: "servers (collectMetrics sid r now st) = servers st"
  by (simp add: collectMetrics_def createMetric_def deleteMany_def Let_def)

text \<open>What one step does to a row that exists.\<close>

lemma step_row:
  assumes "idsOk st" "servers st sid = Some s"
  shows "\<exists>s'. servers (step ev st) sid = Some s' \<and>
          (s' = s
           \<or> (\<exists>org. ev = StartRequest org sid) \<and> status s \<noteq> Running \<and> s' = s\<lparr>status := Running\<rparr>
           \<or> (\<exists>org. ev = StopRequest org sid) \<and> status s \<noteq> Stopped \<and> s' = s\<lparr>status := Stopped\<rparr>
           \<or> (\<exists>e. ev = Fire (ProvisionDone sid) e
                  \<and> (s' = s\<lparr>status := Running, ipAddress := e_ip e\<rparr> \<or> s' = s\<lparr>status := Failed\<rparr>)))"
proof (cases ev)
  case (CreateServer cat org now b)
  have "sid \<noteq> nextId st" using assms by (auto simp: idsOk_def)
  then show ?thesis
    using assms(2) CreateServer
    by (auto simp: step_def POST_servers_def provisionServer_def updateServer_def setTimeout_def
          Let_def split: sum.splits option.splits)
next
  case (StartRequest org i)
  then show ?thesis
    using assms(2)
    by (auto simp: step_def POST_start_def startServer_def findServer_def updateServer_def
          split: option.splits if_splits)
next
  case (StopRequest org i)
  then show ?thesis
    using assms(2)
    by (auto simp: step_def POST_stop_def stopServer_def findServer_def updateServer_def
          split: option.splits if_splits)
next
  case (CreateDeployment org now valid n i)
  then show ?thesis
    using assms(2)
    by (auto simp: step_def POST_deployments_def setTimeout_def Let_def split: option.splits)
next
  case (RedeployRequest org now did)
  then show ?thesis
    using assms(2)
    by (auto simp: step_def POST_redeploy_def updateDeployment_def split: option.splits)
next
  case (Fire t e)
  show ?thesis
  proof (cases t)
    case (ProvisionDone i)
    then show ?thesis
      using assms(2) Fire
      by (auto simp: step_def fire_def runTask_def provisionCallback_def processExit_def updateServer_def
            split: option.splits if_splits)
  next
    case (BuildStart did)
    then show ?thesis
      using assms(2) Fire
      by (auto simp: step_def fire_def runTask_def buildStartCallback_def updateDeployment_def
            setTimeout_def split: option.splits)
  next
    case (BuildFinish did)
    then show ?thesis
      using assms(2) Fire
      by (auto simp: step_def fire_def runTask_def buildFinishCallback_def updateDeployment_def
            Let_def split: option.splits)
  qed
next
  case (Tick h r now)
  then show ?thesis
    using assms(2) by (auto simp: step_def intervalTick_def split: option.splits)
qed

text \<open>A row that appears was just created.\<close>

lemma step_new_row:
  assumes "servers st sid = None" "servers (step ev st) sid = Some s'"
  shows "\<exists>cat org now b specs. ev = CreateServer cat org now b \<and> sid = nextId st
           \<and> getInstanceSpecs cat (b_provider b) (trim (b_instanceType b)) = Inr specs
           \<and> status s' = Pending
           \<and> bandwidth s' = bandwidth specs \<and> monthlyPrice s' = monthlyPrice specs
           \<and> cpu s' = orElse (b_cpu b) (cpu specs)
           \<and> memory s' = orElse (b_memory b) (memory specs)
           \<and> storage s' = orElse (b_storage b) (storage specs)"
proof (cases ev)
  case (CreateServer cat org now b)
  then show ?thesis
    using assms
    by (auto simp: step_def POST_servers_def provisionServer_def updateServer_def setTimeout_def
          Let_def split: sum.splits option.splits if_splits)
next
  case (StartRequest org i)
  then show ?thesis
    using assms
    by (auto simp: step_def POST_start_def startServer_def findServer_def updateServer_def
          split: option.splits if_splits)
next
  case (StopRequest org i)
  then show ?thesis
    using assms
    by (auto simp: step_def POST_stop_def stopServer_def findServer_def updateServer_def
          split: option.splits if_splits)
next
  case (CreateDeployment org now valid n i)
  then show ?thesis
    using assms
    by (auto simp: step_def POST_deployments_def setTimeout_def Let_def split: option.splits if_splits)
next
  case (RedeployRequest org now did)
  then show ?thesis
    using assms
    by (auto simp: step_def POST_redeploy_def updateDeployment_def split: option.splits if_splits)
next
  case (Fire t e)
  then show ?thesis
    using assms
    by (cases t)
       (auto simp: step_def fire_def runTask_def provisionCallback_def processExit_def updateServer_def
            buildStartCallback_def buildFinishCallback_def updateDeployment_def setTimeout_def
            Let_def split: option.splits if_splits)
next
  case (Tick h r now)
  then show ?thesis
    using assms by (auto simp: step_def intervalTick_def split: option.splits)
qed

lemma nextId_step: "nextId st \<le> nextId (step ev st)"
proof (cases ev)
  case (Fire t e)
  then show ?thesis
    by (cases t)
       (auto simp: step_def fire_def runTask_def provisionCallback_def processExit_def updateServer_def
            buildStartCallback_def buildFinishCallback_def updateDeployment_def setTimeout_def
            Let_def split: option.splits if_splits)
qed (auto simp: step_def POST_servers_def provisionServer_def updateServer_def setTimeout_def
        POST_start_def startServer_def findServer_def POST_stop_def stopServer_def
        POST_deployments_def POST_redeploy_def updateDeployment_def intervalTick_def
        collectMetrics_def createMetric_def deleteMany_def
        Let_def split: sum.splits option.splits if_splits)

lemma idsOk_step: assumes "idsOk st" shows "idsOk (step ev st)"
  unfolding idsOk_def
proof (intro allI impI)
  fix i assume "servers (step ev st) i \<noteq> None"
  then obtain s' where s': "servers (step ev st) i = Some s'" by auto
  show "i < nextId (step ev st)"
  proof (cases "servers st i")
    case None
    from step_new_row[OF None s'] obtain cat org now b where
      ev: "ev = CreateServer cat org now b" and i: "i = nextId st" by blast
    have "nextId (step ev st) = Suc (nextId st)"
      using s' None unfolding ev i
      by (auto simp: step_def POST_servers_def provisionServer_def updateServer_def setTimeout_def
          Let_def split: sum.splits option.splits if_splits)
    then show ?thesis using i by simp
  next
    case (Some s)
    then have "i < nextId st" using assms by (auto simp: idsOk_def)
    then show ?thesis using nextId_step[of st ev] by simp
  qed
qed

lemma idsOk_initial: "idsOk initial_state"
  by (simp add: idsOk_def initial_state_def)

lemma idsOk_run: "idsOk st \<Longrightarrow> idsOk (run evs st)"
  by (induction evs arbitrary: st) (simp_all add: idsOk_step)

lemma run_append: "run (evs @ later) st = run later (run evs st)"
  by (induction evs arbitrary: st) simp_all


section \<open>Retention\<close>

lemma metrics_step:
  "metrics (step ev st) = metrics st
   \<or> (\<exists>h r now sid. ev = Tick h r now \<and> step ev st = collectMetrics sid r now st)"
proof (cases ev)
  case (Fire t e)
  then show ?thesis
    by (cases t)
       (auto simp: step_def fire_def runTask_def provisionCallback_def processExit_def updateServer_def
            buildStartCallback_def buildFinishCallback_def updateDeployment_def setTimeout_def
            startMetricsCollection_def stopMetricsCollection_def setInterval_def
            clearInterval_def Let_def split: option.splits if_splits)
next
  case (Tick h r now)
  then show ?thesis by (auto simp: step_def intervalTick_def split: option.splits)
qed (auto simp: step_def POST_servers_def provisionServer_def updateServer_def setTimeout_def
        POST_start_def startServer_def findServer_def POST_stop_def stopServer_def
        POST_deployments_def POST_redeploy_def updateDeployment_def
        startMetricsCollection_def stopMetricsCollection_def setInterval_def
        clearInterval_def Let_def split: sum.splits option.splits if_splits)

lemma samplesOf_collect_le:
  assumes "idsFresh st"
  shows "length (samplesOf s (collectMetrics sid r now st)) \<le> max 1000 (length (samplesOf s st))"
proof (cases "s = sid")
  case True
  have "length (samplesOf sid (collectMetrics sid r now st))
        = size (mset (samplesOf sid (collectMetrics sid r now st)))" by simp
  also have "\<dots> \<le> 1000"
    unfolding samplesOf_collect_same[OF assms] by simp
  finally show ?thesis using True by simp
next
  case False
  then show ?thesis using samplesOf_collect_other[OF assms False] by simp
qed

lemma bounded_step:
  assumes "idsFresh st" "length (samplesOf s st) \<le> 1000"
  shows "idsFresh (step ev st) \<and> length (samplesOf s (step ev st)) \<le> 1000"
proof -
  from metrics_step[of ev st] show ?thesis
  proof
    assume m: "metrics (step ev st) = metrics st"
    have "idsFresh (step ev st)"
      using assms(1) nextId_step[of st ev] by (fastforce simp: idsFresh_def m)
    then show ?thesis using assms(2) by (simp add: samplesOf_def m)
  next
    assume "\<exists>h r now sid. ev = Tick h r now \<and> step ev st = collectMetrics sid r now st"
    then obtain r now sid where c: "step ev st = collectMetrics sid r now st" by blast
    show ?thesis
      unfolding c using idsFresh_collect[OF assms(1)] samplesOf_collect_le[OF assms(1), of s sid r now]
        assms(2) by simp
  qed
qed

lemma bounded_run:
  "idsFresh st \<Longrightarrow> length (samplesOf s st) \<le> 1000 \<Longrightarrow> length (samplesOf s (run evs st)) \<le> 1000"
proof (induction evs arbitrary: st)
  case Nil
  then show ?case by simp
next
  case (Cons ev evs)
  from bounded_step[OF Cons.prems, of ev] show ?case by (simp add: Cons.IH)
qed

lemma bounded_reachable: "length (samplesOf s (run evs initial_state)) \<le> 1000"
  using idsFresh_initial by (rule bounded_run) (simp add: samplesOf_def initial_state_def)


text \<open>
  C1. After any run of collection ticks from the empty store, the samples stored for a
  server number min(N, 1000), where N is the number of ticks for that server, and their
  timestamps are the 1000 largest of the timestamps inserted for it. In every state the
  whole system can reach, no server has more than 1000 samples stored.
\<close>

theorem retention_most_recent:
  "length (samplesOf s (collectAll ticks initial_state)) = min (length (tickTimes s ticks)) 1000
   \<and> mset (map timestamp (samplesOf s (collectAll ticks initial_state)))
       = mset (take 1000 (rev (sort (tickTimes s ticks))))
   \<and> length (samplesOf s (run evs initial_state)) \<le> 1000"
proof -
  let ?xs = "samplesOf s (collectAll ticks initial_state)"
  note k = retention_keys[of s ticks]
  have "length ?xs = size (mset (map (\<lambda>m. - timestamp m) ?xs))" by simp
  also have "\<dots> = min (length (tickTimes s ticks)) 1000"
    unfolding k by (simp add: min.commute)
  finally have a: "length ?xs = min (length (tickTimes s ticks)) 1000" .
  have "mset (map timestamp ?xs) = image_mset uminus (mset (map (\<lambda>m. - timestamp m) ?xs))"
    by (simp add: multiset.map_comp comp_def)
  also have "\<dots> = mset (take 1000 (map uminus (sort (map uminus (tickTimes s ticks)))))"
    unfolding k by (simp add: take_map)
  also have "\<dots> = mset (take 1000 (rev (sort (tickTimes s ticks))))"
    by (simp only: rev_sort_uminus)
  finally show ?thesis using a bounded_reachable by simp
qed


section \<open>Lifecycle claims\<close>

lemma idsOk_reachable: "idsOk (run evs initial_state)"
  using idsOk_initial by (rule idsOk_run)

lemma step_status:
  assumes "map_option status (servers (step ev (run evs initial_state)) sid) = Some b"
  shows "case map_option status (servers (run evs initial_state) sid) of
        None \<Rightarrow> (\<exists>cat org now bd. ev = CreateServer cat org now bd) \<and> b = Pending
      | Some a \<Rightarrow>
          b = a
          \<or> (\<exists>org. ev = StartRequest org sid) \<and> a \<noteq> Running \<and> b = Running
          \<or> (\<exists>org. ev = StopRequest org sid) \<and> a \<noteq> Stopped \<and> b = Stopped
          \<or> (\<exists>e. ev = Fire (ProvisionDone sid) e) \<and> (b = Running \<or> b = Failed)"
proof -
  from assms obtain s' where s': "servers (step ev (run evs initial_state)) sid = Some s'"
    and b: "b = status s'" by auto
  show ?thesis
  proof (cases "servers (run evs initial_state) sid")
    case None
    then show ?thesis using step_new_row[OF None s'] b by auto
  next
    case (Some s)
    from step_row[OF idsOk_reachable Some, of ev] s' b show ?thesis unfolding Some by auto
  qed
qed

text \<open>
  C3, as stated, fails: a server that has just been created is pending, and the stop
  request moves it to stopped, which is not an edge of the lifecycle graph.
\<close>

theorem lifecycle_graph_counterexample:
  "map_option status (servers (run created initial_state) 0) = Some Pending
   \<and> map_option status (servers (step (StopRequest ''org'' 0) (run created initial_state)) 0)
       = Some Stopped
   \<and> \<not> specEdge Pending Stopped
   \<and> \<not> followsGraph (run created initial_state)
          (step (StopRequest ''org'' 0) (run created initial_state))"
  by code_simp

text \<open>
  C3, amended. In every reachable state one step changes a server's status only in
  these ways: a start request moves the addressed server from any status other than
  running to running; a stop request moves it from any status other than stopped to
  stopped; the provisioning completion writes running or failed over whatever status
  the server has. A server that appears was created by that step and is pending.
  A start or stop request that finds the server in another status than its target
  does make the move, and the completion writes running, or failed on a store error.
\<close>

theorem lifecycle_edges_in_code:
  "(map_option status (servers (step ev (run evs initial_state)) sid) = Some b \<longrightarrow>
     (case map_option status (servers (run evs initial_state) sid) of
        None \<Rightarrow> (\<exists>cat org now bd. ev = CreateServer cat org now bd) \<and> b = Pending
      | Some a \<Rightarrow>
          b = a
          \<or> (\<exists>org. ev = StartRequest org sid) \<and> a \<noteq> Running \<and> b = Running
          \<or> (\<exists>org. ev = StopRequest org sid) \<and> a \<noteq> Stopped \<and> b = Stopped
          \<or> (\<exists>e. ev = Fire (ProvisionDone sid) e) \<and> (b = Running \<or> b = Failed)))
   \<and> (map_option status (findServer org i st) = Some c \<and> c \<noteq> Running \<longrightarrow>
        map_option status (servers (snd (POST_start org i st)) i) = Some Running)
   \<and> (map_option status (findServer org i st) = Some c \<and> c \<noteq> Stopped \<longrightarrow>
        map_option status (servers (snd (POST_stop org i st)) i) = Some Stopped)
   \<and> (servers st i \<noteq> None \<longrightarrow>
        map_option status (servers (snd (provisionCallback i ip err st)) i)
          = Some (if err then Failed else Running))"
proof -
  have a: "map_option status (servers (step ev (run evs initial_state)) sid) = Some b \<longrightarrow>
     (case map_option status (servers (run evs initial_state) sid) of
        None \<Rightarrow> (\<exists>cat org now bd. ev = CreateServer cat org now bd) \<and> b = Pending
      | Some a \<Rightarrow>
          b = a
          \<or> (\<exists>org. ev = StartRequest org sid) \<and> a \<noteq> Running \<and> b = Running
          \<or> (\<exists>org. ev = StopRequest org sid) \<and> a \<noteq> Stopped \<and> b = Stopped
          \<or> (\<exists>e. ev = Fire (ProvisionDone sid) e) \<and> (b = Running \<or> b = Failed))"
    using step_status by blast
  have b: "map_option status (findServer org i st) = Some c \<and> c \<noteq> Running \<longrightarrow>
        map_option status (servers (snd (POST_start org i st)) i) = Some Running"
    by (auto simp: POST_start_def startServer_def findServer_def updateServer_def
          split: option.splits if_splits)
  have c: "map_option status (findServer org i st) = Some c \<and> c \<noteq> Stopped \<longrightarrow>
        map_option status (servers (snd (POST_stop org i st)) i) = Some Stopped"
    by (auto simp: POST_stop_def stopServer_def findServer_def updateServer_def
          split: option.splits if_splits)
  have d: "servers st i \<noteq> None \<longrightarrow>
        map_option status (servers (snd (provisionCallback i ip err st)) i)
          = Some (if err then Failed else Running)"
    by (auto simp: provisionCallback_def updateServer_def split: option.splits)
  show ?thesis using a b c d by blast
qed

theorem lifecycle_edges_in_code_witness:
  "map_option status (servers (step (StopRequest ''org'' 0) (run created initial_state)) 0)
     = Some Stopped
   \<and> map_option status (servers (run created initial_state) 0) = Some Pending
   \<and> map_option status (findServer ''org'' 0 (run created initial_state)) = Some Pending
   \<and> map_option status (servers (snd (POST_start ''org'' 0 (run created initial_state))) 0)
       = Some Running
   \<and> map_option status (servers (snd (POST_stop ''org'' 0 (run created initial_state))) 0)
       = Some Stopped
   \<and> servers (run created initial_state) 0 \<noteq> None
   \<and> map_option status
        (servers (snd (provisionCallback 0 ''10.1.2.3'' False (run created initial_state))) 0)
       = Some Running"
proof -
  have h: "map_option status (servers (step (StopRequest ''org'' 0) (run created initial_state)) 0)
     = Some Stopped
   \<and> map_option status (servers (run created initial_state) 0) = Some Pending
   \<and> map_option status (findServer ''org'' 0 (run created initial_state)) = Some Pending
   \<and> servers (run created initial_state) 0 \<noteq> None"
    by code_simp
  show ?thesis
    using lifecycle_edges_in_code[where ev = "StopRequest ''org'' 0" and evs = created
        and sid = 0 and b = Stopped and org = "''org''" and i = 0
        and st = "run created initial_state" and c = Pending and ip = "''10.1.2.3''"
        and err = False] h
    by simp
qed

text \<open>
  C4. A start request for a server whose status is running is rejected and returns the
  state as it was, so the status and every other column of the server are unchanged
  (the server row carries no generation counter). When the lookup finds the server
  (right organisation, active) the rejection is the 400 error "Server is already
  running".
\<close>

theorem start_running_rejected:
  "(map_option status (servers st sid) = Some Running \<longrightarrow>
      (\<exists>e. POST_start org sid st = (Inl e, st)))
   \<and> (map_option status (findServer org sid st) = Some Running \<longrightarrow>
        POST_start org sid st = (Inl (HttpError 400 ''Server is already running''), st))"
  by (auto simp: POST_start_def findServer_def split: option.splits if_splits)

theorem start_running_rejected_witness:
  "map_option status (servers (run provisioned initial_state) 0) = Some Running
   \<and> map_option status (findServer ''org'' 0 (run provisioned initial_state)) = Some Running
   \<and> POST_start ''org'' 0 (run provisioned initial_state)
       = (Inl (HttpError 400 ''Server is already running''), run provisioned initial_state)"
proof -
  have h: "map_option status (servers (run provisioned initial_state) 0) = Some Running
   \<and> map_option status (findServer ''org'' 0 (run provisioned initial_state)) = Some Running"
    by code_simp
  show ?thesis
    using start_running_rejected[where st = "run provisioned initial_state" and sid = 0
        and org = "''org''"] h
    by simp
qed

text \<open>
  C5, as stated, fails: a server is created (which schedules the provisioning
  completion) and stopped before the completion fires. The completion is still pending,
  and when it fires it is applied: the stopped server becomes running, gets an address
  and a collection timer.
\<close>

theorem stale_completion_counterexample:
  "ProvisionDone 0 \<in> set (timeouts (run stoppedEarly initial_state))
   \<and> map_option status (servers (run stoppedEarly initial_state) 0) = Some Stopped
   \<and> map_option ipAddress (servers (run stoppedEarly initial_state) 0) = Some ''0.0.0.0''
   \<and> activeTimers 0 (run stoppedEarly initial_state) = []
   \<and> map_option status
        (servers (fire (ProvisionDone 0) env0 (run stoppedEarly initial_state)) 0) = Some Running
   \<and> map_option ipAddress
        (servers (fire (ProvisionDone 0) env0 (run stoppedEarly initial_state)) 0)
       = Some ''10.1.2.3''
   \<and> activeTimers 0 (fire (ProvisionDone 0) env0 (run stoppedEarly initial_state)) = [(1, 0)]"
  by code_simp

lemma fire_tables:
  assumes "servers st sid = None"
  shows "servers (fire (ProvisionDone sid) e st) = servers st
         \<and> deployments (fire (ProvisionDone sid) e st) = deployments st
         \<and> metrics (fire (ProvisionDone sid) e st) = metrics st
         \<and> (ProvisionDone sid \<in> set (timeouts st) \<longrightarrow>
              intervals (fire (ProvisionDone sid) e st) = []
              \<and> timeouts (fire (ProvisionDone sid) e st) = [])"
  using assms
  by (simp add: fire_def runTask_def provisionCallback_def updateServer_def processExit_def)

text \<open>
  C5, amended. A delayed completion whose record no longer exists writes nothing. For
  the provisioning completion of a missing server both updates raise and the second
  raise leaves the callback unhandled: the server, deployment and sample tables are as
  they were, and the process ends with its timers and pending callbacks. Either
  deployment stage of a missing deployment logs the error and returns the state as it
  was. There is no generation counter: while the record exists the completion is
  applied whatever has happened to the record since it was scheduled, the provisioning
  completion writing running (failed on a store error), the first deployment stage
  building, the second deployed or failed.
\<close>

theorem missing_record_completion:
  "(servers st sid = None \<longrightarrow>
      provisionCallback sid ip err st = (Inl recordNotFound, st)
      \<and> servers (fire (ProvisionDone sid) e st) = servers st
      \<and> deployments (fire (ProvisionDone sid) e st) = deployments st
      \<and> metrics (fire (ProvisionDone sid) e st) = metrics st)
   \<and> (servers st sid = None \<and> ProvisionDone sid \<in> set (timeouts st) \<longrightarrow>
        intervals (fire (ProvisionDone sid) e st) = []
        \<and> timeouts (fire (ProvisionDone sid) e st) = [])
   \<and> (deployments st did = None \<longrightarrow>
        buildStartCallback did st = st \<and> buildFinishCallback did rnd st = st)
   \<and> (servers st' sid' \<noteq> None \<longrightarrow>
        map_option status (servers (snd (provisionCallback sid' ip err st')) sid')
          = Some (if err then Failed else Running))
   \<and> (deployments st' did' \<noteq> None \<longrightarrow>
        map_option dstatus (deployments (buildStartCallback did' st') did') = Some Building
        \<and> map_option dstatus (deployments (buildFinishCallback did' rnd st') did')
            = Some (if rnd > 0.2 then Deployed else DFailed))"
proof -
  have a: "servers st sid = None \<longrightarrow>
      provisionCallback sid ip err st = (Inl recordNotFound, st)"
    by (simp add: provisionCallback_def updateServer_def)
  have b: "deployments st did = None \<longrightarrow>
        buildStartCallback did st = st \<and> buildFinishCallback did rnd st = st"
    by (simp add: buildStartCallback_def buildFinishCallback_def updateDeployment_def Let_def)
  have c: "servers st' sid' \<noteq> None \<longrightarrow>
        map_option status (servers (snd (provisionCallback sid' ip err st')) sid')
          = Some (if err then Failed else Running)"
    by (auto simp: provisionCallback_def updateServer_def split: option.splits)
  have d: "deployments st' did' \<noteq> None \<longrightarrow>
        map_option dstatus (deployments (buildStartCallback did' st') did') = Some Building
        \<and> map_option dstatus (deployments (buildFinishCallback did' rnd st') did')
            = Some (if rnd > 0.2 then Deployed else DFailed)"
    by (auto simp: buildStartCallback_def buildFinishCallback_def updateDeployment_def
          setTimeout_def Let_def split: option.splits)
  show ?thesis using a b c d fire_tables[of st sid e] by blast
qed

theorem missing_record_completion_witness:
  "servers orphaned 3 = None
   \<and> ProvisionDone 3 \<in> set (timeouts orphaned)
   \<and> map_option status (servers orphaned 0) = Some Running
   \<and> map_option dstatus (deployments orphaned 2) = Some Deployed
   \<and> intervals orphaned = [(1, 0)]
   \<and> provisionCallback 3 ''10.1.2.3'' False orphaned = (Inl recordNotFound, orphaned)
   \<and> servers (fire (ProvisionDone 3) env0 orphaned) = servers orphaned
   \<and> deployments (fire (ProvisionDone 3) env0 orphaned) = deployments orphaned
   \<and> metrics (fire (ProvisionDone 3) env0 orphaned) = metrics orphaned
   \<and> intervals (fire (ProvisionDone 3) env0 orphaned) = []
   \<and> timeouts (fire (ProvisionDone 3) env0 orphaned) = []
   \<and> deployments orphaned 7 = None
   \<and> buildStartCallback 7 orphaned = orphaned
   \<and> buildFinishCallback 7 (1 / 2) orphaned = orphaned
   \<and> servers orphaned 0 \<noteq> None
   \<and> map_option status (servers (snd (provisionCallback 0 ''10.1.2.3'' False orphaned)) 0)
       = Some Running
   \<and> deployments orphaned 2 \<noteq> None
   \<and> map_option dstatus (deployments (buildStartCallback 2 orphaned) 2) = Some Building
   \<and> map_option dstatus (deployments (buildFinishCallback 2 (1 / 2) orphaned) 2)
       = Some Deployed"
proof -
  have h: "servers orphaned 3 = None
   \<and> ProvisionDone 3 \<in> set (timeouts orphaned)
   \<and> map_option status (servers orphaned 0) = Some Running
   \<and> map_option dstatus (deployments orphaned 2) = Some Deployed
   \<and> intervals orphaned = [(1, 0)]
   \<and> deployments orphaned 7 = None
   \<and> servers orphaned 0 \<noteq> None
   \<and> deployments orphaned 2 \<noteq> None"
    by code_simp
  show ?thesis
    using missing_record_completion[where st = orphaned and sid = 3 and did = 7
        and ip = "''10.1.2.3''" and err = False and rnd = "1 / 2" and e = env0
        and st' = orphaned and sid' = 0 and did' = 2] h
    by simp
qed

lemma fireAll_idle: "timeouts st = [] \<Longrightarrow> fireAll fs st = st"
  by (induction fs st rule: fireAll.induct) (simp_all add: fire_def)

text \<open>
  C6. The claim is not met by the code. A deployment that has resolved to deployed, on a
  running server, with no callback pending, is redeployed: the request succeeds and
  writes building, but schedules nothing, so whatever callbacks fire afterwards the
  deployment stays in building.
\<close>

theorem redeploy_never_resolves:
  "map_option dstatus (deployments (run deployedRun initial_state) 2) = Some Deployed
   \<and> map_option status (servers (run deployedRun initial_state) 0) = Some Running
   \<and> fst (POST_redeploy ''org'' 5 2 (run deployedRun initial_state)) = Inr ()
   \<and> timeouts (snd (POST_redeploy ''org'' 5 2 (run deployedRun initial_state))) = []
   \<and> map_option dstatus (deployments
        (fireAll fs (snd (POST_redeploy ''org'' 5 2 (run deployedRun initial_state)))) 2)
       = Some Building"
proof -
  have a: "map_option dstatus (deployments (run deployedRun initial_state) 2) = Some Deployed"
    by code_simp
  have b: "map_option status (servers (run deployedRun initial_state) 0) = Some Running"
    by code_simp
  have c: "fst (POST_redeploy ''org'' 5 2 (run deployedRun initial_state)) = Inr ()"
    by code_simp
  have d: "timeouts (snd (POST_redeploy ''org'' 5 2 (run deployedRun initial_state))) = []"
    by code_simp
  have e: "map_option dstatus (deployments
        (snd (POST_redeploy ''org'' 5 2 (run deployedRun initial_state))) 2) = Some Building"
    by code_simp
  show ?thesis using a b c d e by (simp add: fireAll_idle[OF d])
qed

section \<open>Specification snapshot\<close>

lemma run_row_specs:
  assumes "idsOk st" "servers st sid = Some s"
  shows "\<exists>s'. servers (run later st) sid = Some s' \<and> cpu s' = cpu s \<and> memory s' = memory s
           \<and> storage s' = storage s \<and> bandwidth s' = bandwidth s \<and> monthlyPrice s' = monthlyPrice s"
  using assms
proof (induction later arbitrary: st s)
  case Nil
  then show ?case by simp
next
  case (Cons ev later)
  from step_row[OF Cons.prems, of ev] obtain s1 where
    s1: "servers (step ev st) sid = Some s1" and
    same: "cpu s1 = cpu s \<and> memory s1 = memory s \<and> storage s1 = storage s
           \<and> bandwidth s1 = bandwidth s \<and> monthlyPrice s1 = monthlyPrice s"
    by auto
  from Cons.IH[OF idsOk_step[OF Cons.prems(1)] s1] same show ?case by auto
qed

text \<open>
  C10, as stated, fails: a valid request that carries cpu = 8 for an aws t3.micro is
  stored with cpu 8, while the catalog resolves that instance type to cpu 2.
\<close>

theorem snapshot_counterexample:
  "validCreate body8
   \<and> getInstanceSpecs instanceSpecs (b_provider body8) (trim (b_instanceType body8))
       = Inr (spec 2 1 20 100 (17 / 2))
   \<and> fst (POST_servers instanceSpecs ''org'' 0 body8 initial_state) = Inr 0
   \<and> map_option cpu (servers (snd (POST_servers instanceSpecs ''org'' 0 body8 initial_state)) 0)
       = Some 8
   \<and> cpu (spec 2 1 20 100 (17 / 2)) = 2"
  by code_simp

text \<open>
  C10, amended. For every server created, the stored bandwidth and monthly price equal
  the catalog's resolved specification for its provider and instance type at creation;
  the stored cpu, memory and storage equal the value given in the request when there is
  one (and it is not zero), and the catalog's otherwise. Nothing that happens later,
  under whatever catalog, alters the five stored fields of an existing server.
\<close>

theorem snapshot_at_creation:
  "(fst (POST_servers cat org now bd st) = Inr sid \<longrightarrow>
      (\<exists>specs. getInstanceSpecs cat (b_provider bd) (trim (b_instanceType bd)) = Inr specs
         \<and> map_option bandwidth (servers (snd (POST_servers cat org now bd st)) sid)
             = Some (bandwidth specs)
         \<and> map_option monthlyPrice (servers (snd (POST_servers cat org now bd st)) sid)
             = Some (monthlyPrice specs)
         \<and> map_option cpu (servers (snd (POST_servers cat org now bd st)) sid)
             = Some (orElse (b_cpu bd) (cpu specs))
         \<and> map_option memory (servers (snd (POST_servers cat org now bd st)) sid)
             = Some (orElse (b_memory bd) (memory specs))
         \<and> map_option storage (servers (snd (POST_servers cat org now bd st)) sid)
             = Some (orElse (b_storage bd) (storage specs))))
   \<and> (servers (run evs initial_state) i \<noteq> None \<longrightarrow>
        map_option monthlyPrice (servers (run (evs @ later) initial_state) i)
          = map_option monthlyPrice (servers (run evs initial_state) i)
        \<and> map_option bandwidth (servers (run (evs @ later) initial_state) i)
          = map_option bandwidth (servers (run evs initial_state) i)
        \<and> map_option cpu (servers (run (evs @ later) initial_state) i)
          = map_option cpu (servers (run evs initial_state) i)
        \<and> map_option memory (servers (run (evs @ later) initial_state) i)
          = map_option memory (servers (run evs initial_state) i)
        \<and> map_option storage (servers (run (evs @ later) initial_state) i)
          = map_option storage (servers (run evs initial_state) i))"
proof -
  have a: "fst (POST_servers cat org now bd st) = Inr sid \<longrightarrow>
      (\<exists>specs. getInstanceSpecs cat (b_provider bd) (trim (b_instanceType bd)) = Inr specs
         \<and> map_option bandwidth (servers (snd (POST_servers cat org now bd st)) sid)
             = Some (bandwidth specs)
         \<and> map_option monthlyPrice (servers (snd (POST_servers cat org now bd st)) sid)
             = Some (monthlyPrice specs)
         \<and> map_option cpu (servers (snd (POST_servers cat org now bd st)) sid)
             = Some (orElse (b_cpu bd) (cpu specs))
         \<and> map_option memory (servers (snd (POST_servers cat org now bd st)) sid)
             = Some (orElse (b_memory bd) (memory specs))
         \<and> map_option storage (servers (snd (POST_servers cat org now bd st)) sid)
             = Some (orElse (b_storage bd) (storage specs)))"
    by (auto simp: POST_servers_def provisionServer_def updateServer_def setTimeout_def
          Let_def split: sum.splits option.splits if_splits)
  have b: "servers (run evs initial_state) i \<noteq> None \<longrightarrow>
        map_option monthlyPrice (servers (run (evs @ later) initial_state) i)
          = map_option monthlyPrice (servers (run evs initial_state) i)
        \<and> map_option bandwidth (servers (run (evs @ later) initial_state) i)
          = map_option bandwidth (servers (run evs initial_state) i)
        \<and> map_option cpu (servers (run (evs @ later) initial_state) i)
          = map_option cpu (servers (run evs initial_state) i)
        \<and> map_option memory (servers (run (evs @ later) initial_state) i)
          = map_option memory (servers (run evs initial_state) i)
        \<and> map_option storage (servers (run (evs @ later) initial_state) i)
          = map_option storage (servers (run evs initial_state) i)"
  proof (intro impI)
    assume "servers (run evs initial_state) i \<noteq> None"
    then obtain s where s: "servers (run evs initial_state) i = Some s" by auto
    from run_row_specs[OF idsOk_reachable s, of later]
    show "map_option monthlyPrice (servers (run (evs @ later) initial_state) i)
          = map_option monthlyPrice (servers (run evs initial_state) i)
        \<and> map_option bandwidth (servers (run (evs @ later) initial_state) i)
          = map_option bandwidth (servers (run evs initial_state) i)
        \<and> map_option cpu (servers (run (evs @ later) initial_state) i)
          = map_option cpu (servers (run evs initial_state) i)
        \<and> map_option memory (servers (run (evs @ later) initial_state) i)
          = map_option memory (servers (run evs initial_state) i)
        \<and> map_option storage (servers (run (evs @ later) initial_state) i)
          = map_option storage (servers (run evs initial_state) i)"
      by (auto simp: run_append s)
  qed
  show ?thesis using a b by blast
qed

theorem snapshot_at_creation_witness:
  "fst (POST_servers instanceSpecs ''org'' 0 body8 initial_state) = Inr 0
   \<and> map_option monthlyPrice
        (servers (snd (POST_servers instanceSpecs ''org'' 0 body8 initial_state)) 0)
       = Some (17 / 2)
   \<and> map_option cpu (servers (snd (POST_servers instanceSpecs ''org'' 0 body8 initial_state)) 0)
       = Some 8
   \<and> servers (run created initial_state) 0 \<noteq> None
   \<and> map_option monthlyPrice
        (servers (run (created @ [CreateServer catalog2 ''org'' 7 body1]) initial_state) 0)
       = map_option monthlyPrice (servers (run created initial_state) 0)
   \<and> map_option monthlyPrice
        (servers (run (created @ [CreateServer catalog2 ''org'' 7 body1]) initial_state) 1)
       = Some 99"
proof -
  have h1: "fst (POST_servers instanceSpecs ''org'' 0 body8 initial_state) = Inr 0" by code_simp
  have h2: "servers (run created initial_state) 0 \<noteq> None" by code_simp
  have e1: "map_option monthlyPrice
        (servers (snd (POST_servers instanceSpecs ''org'' 0 body8 initial_state)) 0)
       = Some (17 / 2)"
    by code_simp
  have e2: "map_option cpu
        (servers (snd (POST_servers instanceSpecs ''org'' 0 body8 initial_state)) 0) = Some 8"
    by code_simp
  have e3: "map_option monthlyPrice
        (servers (run (created @ [CreateServer catalog2 ''org'' 7 body1]) initial_state) 1)
       = Some 99"
    by code_simp
  show ?thesis
    using snapshot_at_creation[where cat = instanceSpecs and org = "''org''" and now = 0
        and bd = body8 and st = initial_state and sid = 0 and evs = created and i = 0
        and later = "[CreateServer catalog2 ''org'' 7 body1]"] h1 h2 e1 e2 e3
    by blast
qed

section \<open>Overview alerts\<close>

lemma sorted_take_drop:
  assumes "sorted (map f xs)" "x \<in> set (take n xs)" "y \<in> set (drop n xs)"
  shows "f x \<le> f y"
proof -
  have "sorted (map f (take n xs) @ map f (drop n xs))"
    using assms(1) by (metis append_take_drop_id map_append)
  then show ?thesis using assms(2,3) by (auto simp: sorted_append)
qed


lemma drop_nonempty_take: "x \<in> set (drop n xs) \<Longrightarrow> length (take n xs) = n"
  by (cases "n \<le> length xs") auto

lemma many_newer:
  assumes "sorted (map f S)" "m \<in> set (drop n S)"
  shows "n < length (filter (\<lambda>x. f x \<le> f m) S)"
proof -
  have all: "\<And>x. x \<in> set (take n S) \<Longrightarrow> f x \<le> f m"
    using sorted_take_drop[OF assms(1) _ assms(2)] by simp
  have t: "filter (\<lambda>x. f x \<le> f m) (take n S) = take n S"
    by (rule filter_True) (simp add: all)
  have d: "filter (\<lambda>x. f x \<le> f m) (drop n S) \<noteq> []"
    using assms(2) by (auto simp: filter_empty_conv)
  have "length (filter (\<lambda>x. f x \<le> f m) S)
        = length (filter (\<lambda>x. f x \<le> f m) (take n S)) + length (filter (\<lambda>x. f x \<le> f m) (drop n S))"
    by (metis append_take_drop_id filter_append length_append)
  moreover have "length (take n S) = n" using assms(2) by (rule drop_nonempty_take)
  moreover have "0 < length (filter (\<lambda>x. f x \<le> f m) (drop n S))" using d by simp
  ultimately show ?thesis by (simp add: t)
qed

lemma tick_below_cap:
  assumes "intervals st = [(h, sid)]" "length (metrics st) < 1000"
  shows "intervalTick h r now st
         = st\<lparr>metrics := metrics st @ [sampleRow (nextId st) sid r now], nextId := Suc (nextId st)\<rparr>"
proof -
  have "length (filter (\<lambda>m. serverId m = sid) (metrics st)) < 1000"
    using assms(2) by (rule le_less_trans[OF length_filter_le])
  then have "length (newestFirst (filter (\<lambda>m. serverId m = sid)
          (metrics st @ [sampleRow (nextId st) sid r now]))) \<le> 1000"
    by (simp add: newestFirst_def sampleRow_def)
  then show ?thesis
    using assms(1)
    by (simp add: intervalTick_def collectMetrics_def createMetric_def findManySkip_def
        sampleRow_def Let_def)
qed

lemma run_ticks:
  assumes "intervals st = [(h, sid)]" "length (metrics st) + n \<le> 1000"
  shows "run (map (\<lambda>i. Tick h r (t0 + int i)) [0..<n]) st
         = st\<lparr>metrics := metrics st @ map (\<lambda>i. sampleRow (nextId st + i) sid r (t0 + int i)) [0..<n],
               nextId := nextId st + n\<rparr>"
  using assms(2)
proof (induction n)
  case 0
  then show ?case by simp
next
  case (Suc n)
  let ?st = "st\<lparr>metrics := metrics st @ map (\<lambda>i. sampleRow (nextId st + i) sid r (t0 + int i)) [0..<n],
               nextId := nextId st + n\<rparr>"
  have "run (map (\<lambda>i. Tick h r (t0 + int i)) [0..<Suc n]) st
        = step (Tick h r (t0 + int n)) ?st"
    using Suc by (simp add: run_append)
  also have "\<dots> = intervalTick h r (t0 + int n) ?st" by (simp add: step_def)
  also have "\<dots> = ?st\<lparr>metrics := metrics ?st @ [sampleRow (nextId ?st) sid r (t0 + int n)],
                        nextId := Suc (nextId ?st)\<rparr>"
    using assms(1) Suc.prems by (intro tick_below_cap) simp_all
  finally show ?case by simp
qed

lemma crowded_reached: "run crowdedRun initial_state = crowded"
proof -
  have i: "intervals crowdedStart = [(1, 0)]" and l: "length (metrics crowdedStart) = 1"
    by code_simp+
  have "run crowdedRun initial_state
        = run (map (\<lambda>i. Tick 1 (rd 10 10 10) (2000 + int i)) [0..<100]) crowdedStart"
    by (simp only: crowdedRun_def crowdedStart_def run_append append_assoc[symmetric])
  also have "\<dots> = crowded"
    unfolding crowded_def using l by (intro run_ticks[OF i]) simp
  finally show ?thesis .
qed


text \<open>
  C7, as stated, fails: the overview examines only the 100 newest samples of the last
  hour. After 101 ticks of one server's timer the oldest sample, which is over every
  threshold and within the last hour, is behind 100 newer ones and no alert is returned
  for it.
\<close>

theorem overview_cap_counterexample:
  "run crowdedRun initial_state = crowded
   \<and> (sampleRow 2 0 (rd 99 99 99) 1000) \<in> set (metrics crowded)
   \<and> map_option organizationId (servers crowded 0) = Some ''org''
   \<and> 10000 - 60 * 60 * 1000 \<le> timestamp (sampleRow 2 0 (rd 99 99 99) 1000)
   \<and> cpuUsage (sampleRow 2 0 (rd 99 99 99) 1000) > 80 \<and> memoryUsage (sampleRow 2 0 (rd 99 99 99) 1000) > 85 \<and> diskUsage (sampleRow 2 0 (rd 99 99 99) 1000) > 90
   \<and> overviewAlerts ''org'' 10000 crowded = []"
proof -
  have "(sampleRow 2 0 (rd 99 99 99) 1000) \<in> set (metrics crowded)
   \<and> map_option organizationId (servers crowded 0) = Some ''org''
   \<and> 10000 - 60 * 60 * 1000 \<le> timestamp (sampleRow 2 0 (rd 99 99 99) 1000)
   \<and> cpuUsage (sampleRow 2 0 (rd 99 99 99) 1000) > 80 \<and> memoryUsage (sampleRow 2 0 (rd 99 99 99) 1000) > 85 \<and> diskUsage (sampleRow 2 0 (rd 99 99 99) 1000) > 90
   \<and> overviewAlerts ''org'' 10000 crowded = []"
    by code_simp
  then show ?thesis using crowded_reached by simp
qed

text \<open>
  C7, amended. The overview examines the 100 newest samples of the last hour of the
  organisation's servers. Among those a sample is flagged exactly when cpuUsage > 80 or
  memoryUsage > 85 or diskUsage > 90 (80 exactly does not alert, 80.1 does); the alert
  type is cpu when cpu is over its threshold, else memory when memory is, else disk; and
  the first ten flagged, newest first, are returned. So a stored last-hour sample over a
  threshold is returned unless ten returned alerts are at least as new, or at least 100
  other last-hour samples are at least as new.
\<close>

theorem overview_alerts:
  "(let lastHour = filter (\<lambda>m. (case servers st (serverId m) of
                                   None \<Rightarrow> False
                                 | Some s \<Rightarrow> organizationId s = org)
                               \<and> now - 60 * 60 * 1000 \<le> timestamp m) (metrics st);
        examined = take 100 (sort_key (\<lambda>m. - timestamp m) lastHour);
        flagged = filter (\<lambda>m. cpuUsage m > 80 \<or> memoryUsage m > 85 \<or> diskUsage m > 90) examined;
        alerts = overviewAlerts org now st
    in length alerts \<le> 10
       \<and> map alertMetric alerts = map metricId (take 10 flagged)
       \<and> map alertTimestamp alerts = map timestamp (take 10 flagged)
       \<and> map alertType alerts
           = map (\<lambda>m. if cpuUsage m > 80 then CpuAlert
                       else if memoryUsage m > 85 then MemoryAlert else DiskAlert)
               (take 10 flagged)
       \<and> sorted (map (\<lambda>m. - timestamp m) examined)
       \<and> (\<forall>m \<in> set lastHour.
             cpuUsage m > 80 \<or> memoryUsage m > 85 \<or> diskUsage m > 90 \<longrightarrow>
               toAlert st m \<in> set alerts
               \<or> (length alerts = 10 \<and> (\<forall>a \<in> set alerts. timestamp m \<le> alertTimestamp a))
               \<or> 100 < length (filter (\<lambda>x. timestamp m \<le> timestamp x) lastHour)))
   \<and> (cpuUsage m1 = 80 \<and> memoryUsage m1 \<le> 85 \<and> diskUsage m1 \<le> 90 \<longrightarrow> \<not> highUsage m1)
   \<and> (cpuUsage m2 = 80.1 \<longrightarrow> highUsage m2 \<and> alertType (toAlert st m2) = CpuAlert)"
proof -
  define L where "L = filter (\<lambda>m. (case servers st (serverId m) of
                                   None \<Rightarrow> False
                                 | Some s \<Rightarrow> organizationId s = org)
                               \<and> now - 60 * 60 * 1000 \<le> timestamp m) (metrics st)"
  define S where "S = sort_key (\<lambda>m. - timestamp m) L"
  define E where "E = take 100 S"
  define F where "F = filter (\<lambda>m. cpuUsage m > 80 \<or> memoryUsage m > 85 \<or> diskUsage m > 90) E"
  have P: "highUsage = (\<lambda>m. cpuUsage m > 80 \<or> memoryUsage m > 85 \<or> diskUsage m > 90)"
    by (rule ext) (simp add: highUsage_def)
  have al: "overviewAlerts org now st = map (toAlert st) (take 10 F)"
    by (simp add: overviewAlerts_def recentMetrics_def newestFirst_def P F_def E_def S_def L_def)
  have a: "length (overviewAlerts org now st) \<le> 10" by (simp add: al)
  have b: "map alertMetric (overviewAlerts org now st) = map metricId (take 10 F)"
    by (simp add: al comp_def toAlert_def)
  have b': "map alertTimestamp (overviewAlerts org now st) = map timestamp (take 10 F)"
    by (simp add: al comp_def toAlert_def)
  have c: "map alertType (overviewAlerts org now st)
           = map (\<lambda>m. if cpuUsage m > 80 then CpuAlert
                       else if memoryUsage m > 85 then MemoryAlert else DiskAlert) (take 10 F)"
    by (simp add: al comp_def toAlert_def)
  have sS: "sorted (map (\<lambda>m. - timestamp m) S)" by (simp add: S_def)
  have sE: "sorted (map (\<lambda>m. - timestamp m) E)"
    unfolding E_def take_map[symmetric] using sS by (rule sorted_wrt_take)
  have sF: "sorted (map (\<lambda>m. - timestamp m) F)"
    unfolding F_def using sE by (rule sorted_filter)
  have d: "\<forall>m \<in> set L.
             cpuUsage m > 80 \<or> memoryUsage m > 85 \<or> diskUsage m > 90 \<longrightarrow>
               toAlert st m \<in> set (overviewAlerts org now st)
               \<or> (length (overviewAlerts org now st) = 10
                   \<and> (\<forall>a \<in> set (overviewAlerts org now st). timestamp m \<le> alertTimestamp a))
               \<or> 100 < length (filter (\<lambda>x. timestamp m \<le> timestamp x) L)"
  proof (intro ballI impI)
    fix m assume mL: "m \<in> set L"
      and over: "cpuUsage m > 80 \<or> memoryUsage m > 85 \<or> diskUsage m > 90"
    have mS: "m \<in> set S" using mL by (simp add: S_def)
    show "toAlert st m \<in> set (overviewAlerts org now st)
               \<or> (length (overviewAlerts org now st) = 10
                   \<and> (\<forall>a \<in> set (overviewAlerts org now st). timestamp m \<le> alertTimestamp a))
               \<or> 100 < length (filter (\<lambda>x. timestamp m \<le> timestamp x) L)"
    proof (cases "m \<in> set E")
      case False
      then have "m \<in> set (drop 100 S)"
        using mS by (metis E_def Un_iff append_take_drop_id set_append)
      from many_newer[OF sS this]
      have "100 < length (filter (\<lambda>x. timestamp m \<le> timestamp x) S)" by simp
      then have "100 < length (filter (\<lambda>x. timestamp m \<le> timestamp x) L)"
        by (simp add: S_def filter_sort)
      then show ?thesis by simp
    next
      case True
      then have mF: "m \<in> set F" using over by (simp add: F_def)
      show ?thesis
      proof (cases "m \<in> set (take 10 F)")
        case True
        then show ?thesis by (simp add: al)
      next
        case False
        then have mD: "m \<in> set (drop 10 F)"
          using mF by (metis Un_iff append_take_drop_id set_append)
        have len: "length (take 10 F) = 10" using mD by (rule drop_nonempty_take)
        have "\<forall>x \<in> set (take 10 F). timestamp m \<le> timestamp x"
          using sorted_take_drop[OF sF _ mD] by auto
        then show ?thesis using len by (simp add: al toAlert_def del: length_take)
      qed
    qed
  qed
  have e: "cpuUsage m1 = 80 \<and> memoryUsage m1 \<le> 85 \<and> diskUsage m1 \<le> 90 \<longrightarrow> \<not> highUsage m1"
    by (simp add: highUsage_def)
  have f: "cpuUsage m2 = 80.1 \<longrightarrow> highUsage m2 \<and> alertType (toAlert st m2) = CpuAlert"
    by (simp add: highUsage_def toAlert_def)
  show ?thesis
    using a b b' c sE d e f
    unfolding Let_def L_def[symmetric] S_def[symmetric] E_def[symmetric] F_def[symmetric]
    by blast
qed


theorem overview_alerts_witness:
  "length (overviewAlerts ''org'' 10000 (run alertRun initial_state)) \<le> 10
   \<and> map alertMetric (overviewAlerts ''org'' 10000 (run alertRun initial_state)) = [14, 13, 12, 10, 9, 8, 7, 6, 5, 4]
   \<and> map alertTimestamp (overviewAlerts ''org'' 10000 (run alertRun initial_state))
       = [4000, 3000, 2000, 108, 107, 106, 105, 104, 103, 102]
   \<and> map alertType (overviewAlerts ''org'' 10000 (run alertRun initial_state))
       = [DiskAlert, MemoryAlert, CpuAlert, CpuAlert, CpuAlert, CpuAlert, CpuAlert, CpuAlert,
          CpuAlert, CpuAlert]
   \<and> map metricId (filter (\<lambda>m. cpuUsage m > 80 \<or> memoryUsage m > 85 \<or> diskUsage m > 90) (filter (\<lambda>m. (case servers (run alertRun initial_state) (serverId m) of None \<Rightarrow> False | Some s \<Rightarrow> organizationId s = ''org'') \<and> 10000 - 60 * 60 * 1000 \<le> timestamp m) (metrics (run alertRun initial_state)))) = [2, 3, 4, 5, 6, 7, 8, 9, 10, 12, 13, 14]
   \<and> list_all (\<lambda>m. cpuUsage m > 80 \<or> memoryUsage m > 85 \<or> diskUsage m > 90 \<longrightarrow>
         toAlert (run alertRun initial_state) m \<in> set (overviewAlerts ''org'' 10000 (run alertRun initial_state))
         \<or> (length (overviewAlerts ''org'' 10000 (run alertRun initial_state)) = 10
             \<and> list_all (\<lambda>a. timestamp m \<le> alertTimestamp a) (overviewAlerts ''org'' 10000 (run alertRun initial_state)))
         \<or> 100 < length (filter (\<lambda>x. timestamp m \<le> timestamp x) (filter (\<lambda>m. (case servers (run alertRun initial_state) (serverId m) of None \<Rightarrow> False | Some s \<Rightarrow> organizationId s = ''org'') \<and> 10000 - 60 * 60 * 1000 \<le> timestamp m) (metrics (run alertRun initial_state))))) (filter (\<lambda>m. (case servers (run alertRun initial_state) (serverId m) of None \<Rightarrow> False | Some s \<Rightarrow> organizationId s = ''org'') \<and> 10000 - 60 * 60 * 1000 \<le> timestamp m) (metrics (run alertRun initial_state)))
   \<and> (sampleRow 2 0 (rd 99 99 99) 1000) \<in> set (filter (\<lambda>m. (case servers crowded (serverId m) of None \<Rightarrow> False | Some s \<Rightarrow> organizationId s = ''org'') \<and> 10000 - 60 * 60 * 1000 \<le> timestamp m) (metrics crowded))
   \<and> overviewAlerts ''org'' 10000 crowded = []
   \<and> 100 < length (filter (\<lambda>x. timestamp (sampleRow 2 0 (rd 99 99 99) 1000) \<le> timestamp x) (filter (\<lambda>m. (case servers crowded (serverId m) of None \<Rightarrow> False | Some s \<Rightarrow> organizationId s = ''org'') \<and> 10000 - 60 * 60 * 1000 \<le> timestamp m) (metrics crowded)))
   \<and> cpuUsage atThreshold = 80 \<and> memoryUsage atThreshold \<le> 85 \<and> diskUsage atThreshold \<le> 90
   \<and> \<not> highUsage atThreshold
   \<and> cpuUsage justOver = 80.1
   \<and> highUsage justOver \<and> alertType (toAlert (run alertRun initial_state) justOver) = CpuAlert"
proof -
  note T = overview_alerts[where org = "''org''" and now = 10000 and st = "(run alertRun initial_state)"
      and ?m1.0 = atThreshold and ?m2.0 = justOver, unfolded Let_def]
  note U = overview_alerts[where org = "''org''" and now = 10000 and st = crowded
      and ?m1.0 = atThreshold and ?m2.0 = justOver, unfolded Let_def]
  have e1: "map metricId (take 10 (filter (\<lambda>m. cpuUsage m > 80 \<or> memoryUsage m > 85 \<or> diskUsage m > 90) (take 100 (sort_key (\<lambda>m. - timestamp m) (filter (\<lambda>m. (case servers (run alertRun initial_state) (serverId m) of None \<Rightarrow> False | Some s \<Rightarrow> organizationId s = ''org'') \<and> 10000 - 60 * 60 * 1000 \<le> timestamp m) (metrics (run alertRun initial_state))))))) = [14, 13, 12, 10, 9, 8, 7, 6, 5, 4]"
    by code_simp
  have e2: "map timestamp (take 10 (filter (\<lambda>m. cpuUsage m > 80 \<or> memoryUsage m > 85 \<or> diskUsage m > 90) (take 100 (sort_key (\<lambda>m. - timestamp m) (filter (\<lambda>m. (case servers (run alertRun initial_state) (serverId m) of None \<Rightarrow> False | Some s \<Rightarrow> organizationId s = ''org'') \<and> 10000 - 60 * 60 * 1000 \<le> timestamp m) (metrics (run alertRun initial_state))))))) = [4000, 3000, 2000, 108, 107, 106, 105, 104, 103, 102]"
    by code_simp
  have e3: "map (\<lambda>m. if cpuUsage m > 80 then CpuAlert
                       else if memoryUsage m > 85 then MemoryAlert else DiskAlert) (take 10 (filter (\<lambda>m. cpuUsage m > 80 \<or> memoryUsage m > 85 \<or> diskUsage m > 90) (take 100 (sort_key (\<lambda>m. - timestamp m) (filter (\<lambda>m. (case servers (run alertRun initial_state) (serverId m) of None \<Rightarrow> False | Some s \<Rightarrow> organizationId s = ''org'') \<and> 10000 - 60 * 60 * 1000 \<le> timestamp m) (metrics (run alertRun initial_state)))))))
       = [DiskAlert, MemoryAlert, CpuAlert, CpuAlert, CpuAlert, CpuAlert, CpuAlert, CpuAlert,
          CpuAlert, CpuAlert]"
    by code_simp
  have e4: "map metricId (filter (\<lambda>m. cpuUsage m > 80 \<or> memoryUsage m > 85 \<or> diskUsage m > 90) (filter (\<lambda>m. (case servers (run alertRun initial_state) (serverId m) of None \<Rightarrow> False | Some s \<Rightarrow> organizationId s = ''org'') \<and> 10000 - 60 * 60 * 1000 \<le> timestamp m) (metrics (run alertRun initial_state)))) = [2, 3, 4, 5, 6, 7, 8, 9, 10, 12, 13, 14]"
    by code_simp
  have h: "cpuUsage atThreshold = 80 \<and> memoryUsage atThreshold \<le> 85
           \<and> diskUsage atThreshold \<le> 90 \<and> cpuUsage justOver = 80.1"
    by (simp add: atThreshold_def justOver_def)
  have k1: "(sampleRow 2 0 (rd 99 99 99) 1000) \<in> set (filter (\<lambda>m. (case servers crowded (serverId m) of None \<Rightarrow> False | Some s \<Rightarrow> organizationId s = ''org'') \<and> 10000 - 60 * 60 * 1000 \<le> timestamp m) (metrics crowded))" by code_simp
  have k2: "overviewAlerts ''org'' 10000 crowded = []" by code_simp
  have k3: "cpuUsage (sampleRow 2 0 (rd 99 99 99) 1000) > 80" by (simp add: sampleRow_def rd_def)
  have "toAlert crowded (sampleRow 2 0 (rd 99 99 99) 1000) \<in> set (overviewAlerts ''org'' 10000 crowded)
        \<or> (length (overviewAlerts ''org'' 10000 crowded) = 10
            \<and> (\<forall>a \<in> set (overviewAlerts ''org'' 10000 crowded). timestamp (sampleRow 2 0 (rd 99 99 99) 1000) \<le> alertTimestamp a))
        \<or> 100 < length (filter (\<lambda>x. timestamp (sampleRow 2 0 (rd 99 99 99) 1000) \<le> timestamp x) (filter (\<lambda>m. (case servers crowded (serverId m) of None \<Rightarrow> False | Some s \<Rightarrow> organizationId s = ''org'') \<and> 10000 - 60 * 60 * 1000 \<le> timestamp m) (metrics crowded)))"
    using U k1 k3 by blast
  then have k: "100 < length (filter (\<lambda>x. timestamp (sampleRow 2 0 (rd 99 99 99) 1000) \<le> timestamp x) (filter (\<lambda>m. (case servers crowded (serverId m) of None \<Rightarrow> False | Some s \<Rightarrow> organizationId s = ''org'') \<and> 10000 - 60 * 60 * 1000 \<le> timestamp m) (metrics crowded)))"
    by (simp add: k2)
  have p: "list_all (\<lambda>m. cpuUsage m > 80 \<or> memoryUsage m > 85 \<or> diskUsage m > 90 \<longrightarrow>
         toAlert (run alertRun initial_state) m \<in> set (overviewAlerts ''org'' 10000 (run alertRun initial_state))
         \<or> (length (overviewAlerts ''org'' 10000 (run alertRun initial_state)) = 10
             \<and> list_all (\<lambda>a. timestamp m \<le> alertTimestamp a) (overviewAlerts ''org'' 10000 (run alertRun initial_state)))
         \<or> 100 < length (filter (\<lambda>x. timestamp m \<le> timestamp x) (filter (\<lambda>m. (case servers (run alertRun initial_state) (serverId m) of None \<Rightarrow> False | Some s \<Rightarrow> organizationId s = ''org'') \<and> 10000 - 60 * 60 * 1000 \<le> timestamp m) (metrics (run alertRun initial_state))))) (filter (\<lambda>m. (case servers (run alertRun initial_state) (serverId m) of None \<Rightarrow> False | Some s \<Rightarrow> organizationId s = ''org'') \<and> 10000 - 60 * 60 * 1000 \<le> timestamp m) (metrics (run alertRun initial_state)))"
    unfolding list_all_iff using T by blast
  have q: "length (overviewAlerts ''org'' 10000 (run alertRun initial_state)) \<le> 10
   \<and> map alertMetric (overviewAlerts ''org'' 10000 (run alertRun initial_state)) = [14, 13, 12, 10, 9, 8, 7, 6, 5, 4]
   \<and> map alertTimestamp (overviewAlerts ''org'' 10000 (run alertRun initial_state))
       = [4000, 3000, 2000, 108, 107, 106, 105, 104, 103, 102]
   \<and> map alertType (overviewAlerts ''org'' 10000 (run alertRun initial_state))
       = [DiskAlert, MemoryAlert, CpuAlert, CpuAlert, CpuAlert, CpuAlert, CpuAlert, CpuAlert,
          CpuAlert, CpuAlert]"
    using T e1 e2 e3 by metis
  have r: "\<not> highUsage atThreshold \<and> highUsage justOver
           \<and> alertType (toAlert (run alertRun initial_state) justOver) = CpuAlert"
    using T h by blast
  show ?thesis using p q r e4 h k k1 k2 by blast
qed

section \<open>Billing\<close>


lemma proratedCost_eq:
  "proratedCost z now s = Some (monthlyPrice s / real_of_int (daysInMonth z now)
        * real_of_int (min \<lceil>real_of_int (now - max (createdAt s) (startOfMonth z now)) / 86400000\<rceil>
                           (daysPassed z now)))"
proof -
  have "real_of_int (daysInMonth z now) \<noteq> 0" using daysInMonth_pos[of z now] by simp
  moreover have "(if createdAt s > startOfMonth z now then createdAt s else startOfMonth z now)
        = max (createdAt s) (startOfMonth z now)" by (simp add: max_def)
  ultimately show ?thesis
    by (simp add: proratedCost_def jsDiv_def daysUsed_def Let_def)
qed

lemma those_map_Some: "those (map (\<lambda>x. Some (f x)) xs) = Some (map f xs)"
  by (induction xs) simp_all

lemma billingUsage_total:
  "billingUsage z org now st =
     Some \<lparr>currentCosts = map (\<lambda>s. the (proratedCost z now s)) (activeServers org st),
           totalServers = length (activeServers org st),
           estimatedMonthlyCost = sum_list (map monthlyPrice (activeServers org st)),
           currentMonthUsage = sum_list (map (\<lambda>s. the (proratedCost z now s)) (activeServers org st)),
           projectedMonthlyCost =
             sum_list (map (\<lambda>s. the (proratedCost z now s)) (activeServers org st))
               / real_of_int (daysPassed z now) * real_of_int (daysInMonth z now)\<rparr>"
proof -
  have p: "proratedCost z now = (\<lambda>s. Some (the (proratedCost z now s)))"
    by (rule ext) (simp add: proratedCost_eq)
  have d: "real_of_int (daysPassed z now) \<noteq> 0"
    using getDate_range[of z now] by (auto simp: daysPassed_def)
  have t: "those (map (proratedCost z now) (activeServers org st))
        = Some (map (\<lambda>s. the (proratedCost z now s)) (activeServers org st))"
    by (subst p) (rule those_map_Some)
  show ?thesis
    using d by (simp add: billingUsage_def Let_def t jsDiv_def)
qed

text \<open>
  The example of C8 depends on what ten days are. On a Sydney host in April 2024, when
  daylight time ends on the 7th, local midnight starting the 11th is ten days and one
  hour after the start of the month, and the cost is 11.
\<close>

lemma sydney_local_midnight:
  "startOfMonth sydney 1712757600000 = 1711890000000
   \<and> getDate sydney 1712757600000 = 11
   \<and> 1712757600000 - 1711890000000 = 10 * msPerDay + 3600000
   \<and> proratedCost sydney 1712757600000 server30 = Some 11"
  by code_simp



text \<open>
  C9. For every clock value, time zone, organisation and state the usage computation
  returns its figures without dividing by zero: the day of the month it divides by is at
  least 1 and so is the month length (which is at least 28 in a sound zone). At the
  first instant of a month, with every server created no later than now, each server's
  cost, the month's usage and the projection are all zero; the divisor there is 1.
\<close>

theorem billing_no_zero_divisor:
  "(\<exists>u. billingUsage z org now st = Some u)
   \<and> 1 \<le> daysPassed z now \<and> 1 \<le> daysInMonth z now
   \<and> (zoneOk z \<longrightarrow> 28 \<le> daysInMonth z now)
   \<and> (zoneOk z \<and> now = startOfMonth z now \<longrightarrow> daysPassed z now = 1)
   \<and> (now = startOfMonth z now \<and> list_all (\<lambda>s. createdAt s \<le> now) (activeServers org st) \<longrightarrow>
        (\<exists>u. billingUsage z org now st = Some u \<and> list_all (\<lambda>c. c = 0) (currentCosts u)
              \<and> currentMonthUsage u = 0 \<and> projectedMonthlyCost u = 0))"
proof -
  have a: "\<exists>u. billingUsage z org now st = Some u" by (simp add: billingUsage_total)
  have b: "1 \<le> daysPassed z now" using getDate_range[of z now] by (simp add: daysPassed_def)
  have c: "1 \<le> daysInMonth z now" by (rule daysInMonth_pos)
  have c': "zoneOk z \<longrightarrow> 28 \<le> daysInMonth z now" using daysInMonth_range[of z now] by simp
  have e: "zoneOk z \<and> now = startOfMonth z now \<longrightarrow> daysPassed z now = 1"
    using first_instant[of z now] by (simp add: daysPassed_def)
  have d: "now = startOfMonth z now \<and> list_all (\<lambda>s. createdAt s \<le> now) (activeServers org st) \<longrightarrow>
        (\<exists>u. billingUsage z org now st = Some u \<and> list_all (\<lambda>c. c = 0) (currentCosts u)
              \<and> currentMonthUsage u = 0 \<and> projectedMonthlyCost u = 0)"
  proof (intro impI, elim conjE)
    assume first: "now = startOfMonth z now"
      and old: "list_all (\<lambda>s. createdAt s \<le> now) (activeServers org st)"
    have zero: "\<And>s. s \<in> set (activeServers org st) \<Longrightarrow> the (proratedCost z now s) = 0"
    proof -
      fix s assume "s \<in> set (activeServers org st)"
      then have "createdAt s \<le> now" using old by (simp add: list_all_iff)
      then have "max (createdAt s) (startOfMonth z now) = now"
        using first by (metis max.absorb2)
      then show "the (proratedCost z now s) = 0" using b by (simp add: proratedCost_eq)
    qed
    have costs: "map (\<lambda>s. the (proratedCost z now s)) (activeServers org st)
                 = map (\<lambda>s. 0) (activeServers org st)"
      by (rule map_cong) (simp_all add: zero)
    show "\<exists>u. billingUsage z org now st = Some u \<and> list_all (\<lambda>c. c = 0) (currentCosts u)
              \<and> currentMonthUsage u = 0 \<and> projectedMonthlyCost u = 0"
      by (simp add: billingUsage_total costs list_all_iff)
  qed
  show ?thesis using a b c c' d e by blast
qed

theorem billing_no_zero_divisor_witness:
  "zoneOk sydney
   \<and> 1711890000000 = startOfMonth sydney 1711890000000
   \<and> list_all (\<lambda>s. createdAt s \<le> 1711890000000) (activeServers ''org'' billingState)
   \<and> activeServers ''org'' billingState \<noteq> []
   \<and> 28 \<le> daysInMonth sydney 1711890000000
   \<and> daysPassed sydney 1711890000000 = 1
   \<and> (\<exists>u. billingUsage sydney ''org'' 1711890000000 billingState = Some u
          \<and> list_all (\<lambda>c. c = 0) (currentCosts u)
          \<and> currentMonthUsage u = 0 \<and> projectedMonthlyCost u = 0)"
proof -
  have h: "1711890000000 = startOfMonth sydney 1711890000000
   \<and> list_all (\<lambda>s. createdAt s \<le> 1711890000000) (activeServers ''org'' billingState)
   \<and> length (activeServers ''org'' billingState) = 1"
    by code_simp
  then have "activeServers ''org'' billingState \<noteq> []" by auto
  then show ?thesis
    using billing_no_zero_divisor[where z = sydney and now = 1711890000000
        and org = "''org''" and st = billingState] h zoneOk_sydney
    by blast
qed

end
